theory Spec2Isabelle
  imports Main "HOL-Library.Multiset"
begin

section \<open>Data model: cells, frames, errors, store\<close>

text \<open>
  The generator of \<^verbatim>\<open>pair_data.py\<close> works on pandas frames. A frame is modelled as
  its list of column labels and its list of rows (the row index of pandas is never
  read by the code and is left out). A cell is a number, a string or a numeric
  sequence (the table built by \<^verbatim>\<open>read_data.py\<close> has all three: \<^verbatim>\<open>user_name\<close> is a
  string, \<^verbatim>\<open>registration\<close> a number, \<^verbatim>\<open>sequence\<close> a numpy array). Numbers are
  unbounded integers or NaN (the missing value of pandas); rounding of floats and
  wrap-around of 64-bit integers are not modelled, so a difference computed below is
  the one numpy computes as long as the values and their difference are integers
  within 64 bits.

  The labels of a frame are meant to be distinct, as they are in the table of
  \<^verbatim>\<open>read_data.py\<close>. Under a repeated label pandas selects every column that bears it,
  where the operations below take the first one; the theorem on the labels of the
  pair tables is stated for distinct labels for that reason.
\<close>

datatype number = Fin int | NaN

datatype cell = Num number | Str string | Seq "number list"

record frame =
  columns :: "string list"
  rows :: "cell list list"

text \<open>
  Python exceptions are values. Every \<^verbatim>\<open>ValueError\<close> carries the place that raises
  it, so that the configuration error of \<^verbatim>\<open>extract_pairs\<close> can be told from the
  ones numpy and pandas raise.
\<close>

datatype value_error =
    SequenceInFeatureNames
  | NoObjectsToConcatenate
  | NeedAtLeastOneArray
  | CannotReshape
  | OperandsCouldNotBeBroadcast
  | ShapeOfPassedValues
  | ColumnsOverlapButNoSuffix

datatype error = ValueError value_error | KeyError | TypeError | IndexError

text \<open>
  Frames are Python objects and \<^verbatim>\<open>cartesian_product\<close> writes into the ones it is
  given, so frames that are passed around live in a store: a reference is a position
  in the list of allocated frames.
\<close>

type_synonym ref = nat
type_synonym heap = "frame list"

definition alloc :: "frame \<Rightarrow> heap \<Rightarrow> ref \<times> heap" where
  "alloc f h = (length h, h @ [f])"

definition rectangular :: "frame \<Rightarrow> bool" where
  "rectangular f = (\<forall>r \<in> set (rows f). length r = length (columns f))"

section \<open>Results that may raise\<close>

fun collect :: "(error + 'a) list \<Rightarrow> error + 'a list" where
  "collect [] = Inr []"
| "collect (x # xs) =
     (case x of
        Inl e \<Rightarrow> Inl e
      | Inr v \<Rightarrow> (case collect xs of Inl e \<Rightarrow> Inl e | Inr vs \<Rightarrow> Inr (v # vs)))"

section \<open>numpy\<close>

fun num_abs_diff :: "number \<Rightarrow> number \<Rightarrow> number" where
  "num_abs_diff (Fin x) (Fin y) = Fin \<bar>x - y\<bar>"
| "num_abs_diff _ _ = NaN"

text \<open>Broadcasting of two one-dimensional shapes: equal lengths, or one of them 1.\<close>

definition np_broadcast ::
  "('a \<Rightarrow> 'a \<Rightarrow> error + 'b) \<Rightarrow> 'a list \<Rightarrow> 'a list \<Rightarrow> error + 'b list" where
  "np_broadcast f xs ys =
     (if length xs = length ys then collect (map2 f xs ys)
      else if length xs = 1 then collect (map (f (hd xs)) ys)
      else if length ys = 1 then collect (map (\<lambda>x. f x (hd ys)) xs)
      else Inl (ValueError OperandsCouldNotBeBroadcast))"

text \<open>
  \<^verbatim>\<open>np.abs(a - b)\<close> on two cells of an array: numbers subtract, arrays subtract
  elementwise (with broadcasting), a string operand is a \<^verbatim>\<open>TypeError\<close>.
\<close>

fun cell_abs_diff :: "cell \<Rightarrow> cell \<Rightarrow> error + cell" where
  "cell_abs_diff (Num x) (Num y) = Inr (Num (num_abs_diff x y))"
| "cell_abs_diff (Seq xs) (Seq ys) =
     (case np_broadcast (\<lambda>x y. Inr (num_abs_diff x y)) xs ys of
        Inl e \<Rightarrow> Inl e
      | Inr zs \<Rightarrow> Inr (Seq zs))"
| "cell_abs_diff (Seq xs) (Num y) = Inr (Seq (map (\<lambda>x. num_abs_diff x y) xs))"
| "cell_abs_diff (Num x) (Seq ys) = Inr (Seq (map (num_abs_diff x) ys))"
| "cell_abs_diff _ _ = Inl TypeError"

section \<open>pandas\<close>

definition at_col :: "string list \<Rightarrow> cell list \<Rightarrow> string \<Rightarrow> cell" where
  "at_col cs r name = (case map_of (zip cs r) name of Some v \<Rightarrow> v | None \<Rightarrow> Num NaN)"

text \<open>\<^verbatim>\<open>DF[name]\<close>\<close>

definition getitem :: "string \<Rightarrow> frame \<Rightarrow> error + cell list" where
  "getitem name f =
     (if name \<in> set (columns f) then Inr (map (\<lambda>r. at_col (columns f) r name) (rows f))
      else Inl KeyError)"

text \<open>\<^verbatim>\<open>DF[name] = vals\<close>: an existing column is overwritten, a new one is appended.\<close>

definition setitem :: "string \<Rightarrow> cell list \<Rightarrow> frame \<Rightarrow> frame" where
  "setitem name vals f =
     (if name \<in> set (columns f)
      then f\<lparr>rows := map2 (\<lambda>r v. map2 (\<lambda>c x. if c = name then v else x) (columns f) r)
                       (rows f) vals\<rparr>
      else \<lparr>columns = columns f @ [name], rows = map2 (\<lambda>r v. r @ [v]) (rows f) vals\<rparr>)"

text \<open>\<^verbatim>\<open>DF[name] = v\<close> for a scalar, and \<^verbatim>\<open>DF[name] = range(DF.shape[0])\<close>\<close>

definition setitem_scalar :: "string \<Rightarrow> cell \<Rightarrow> frame \<Rightarrow> frame" where
  "setitem_scalar name v f = setitem name (replicate (length (rows f)) v) f"

definition setitem_range :: "string \<Rightarrow> frame \<Rightarrow> frame" where
  "setitem_range name f = setitem name (map (\<lambda>i. Num (Fin (int i))) [0..<length (rows f)]) f"

text \<open>The cells of a row that are not under the label \<open>name\<close>.\<close>

definition drop_cells :: "string \<Rightarrow> string list \<Rightarrow> cell list \<Rightarrow> cell list" where
  "drop_cells name cs r = map snd (filter (\<lambda>(c, x). c \<noteq> name) (zip cs r))"

text \<open>\<^verbatim>\<open>DF.drop(name, axis=1)\<close>\<close>

definition drop_column :: "string \<Rightarrow> frame \<Rightarrow> error + frame" where
  "drop_column name f =
     (if name \<in> set (columns f)
      then Inr \<lparr>columns = filter (\<lambda>c. c \<noteq> name) (columns f),
                rows = map (drop_cells name (columns f)) (rows f)\<rparr>
      else Inl KeyError)"

text \<open>
  \<^verbatim>\<open>pd.unique\<close>: the distinct values in order of first appearance; it hashes the
  values, and a numpy array is not hashable.
\<close>

fun is_Seq :: "cell \<Rightarrow> bool" where
  "is_Seq (Seq _) = True"
| "is_Seq _ = False"

fun first_occurrences :: "'a list \<Rightarrow> 'a list \<Rightarrow> 'a list" where
  "first_occurrences seen [] = []"
| "first_occurrences seen (x # xs) =
     (if x \<in> set seen then first_occurrences seen xs
      else x # first_occurrences (x # seen) xs)"

definition pd_unique :: "cell list \<Rightarrow> error + cell list" where
  "pd_unique xs = (if list_ex is_Seq xs then Inl TypeError else Inr (first_occurrences [] xs))"

text \<open>\<^verbatim>\<open>series == value\<close> on one cell: NaN equals nothing.\<close>

definition cell_eq :: "cell \<Rightarrow> cell \<Rightarrow> bool" where
  "cell_eq x y = (x = y \<and> x \<noteq> Num NaN)"

text \<open>\<^verbatim>\<open>a > b\<close> on the cells of the row-number columns, which hold integers.\<close>

fun cell_gt :: "cell \<Rightarrow> cell \<Rightarrow> bool" where
  "cell_gt (Num (Fin a)) (Num (Fin b)) = (a > b)"
| "cell_gt _ _ = False"

text \<open>
  \<^verbatim>\<open>DF.loc[selector, names]\<close> with a boolean selector and a list of labels: a new frame
  (a copy) of the selected rows and the named columns, in the order of \<open>names\<close>. This
  is the selection of pandas on a frame whose labels are distinct; under a label the
  frame has twice pandas returns both columns, and this definition the first.
\<close>

definition loc :: "bool list \<Rightarrow> string list \<Rightarrow> frame \<Rightarrow> error + frame" where
  "loc selector names f =
     (if set names \<subseteq> set (columns f)
      then Inr \<lparr>columns = names,
                rows = map (\<lambda>r. map (at_col (columns f) r) names)
                         (map snd (filter fst (zip selector (rows f))))\<rparr>
      else Inl KeyError)"

text \<open>
  \<^verbatim>\<open>pd.merge(L, R, on=key, suffixes=(sa, sb))\<close>, an inner join: every left row with
  every right row of the same key, in the order of the left rows; a label other than
  the key that both frames have gets the suffix of its side, and with two empty
  suffixes such a label is a \<^verbatim>\<open>ValueError\<close> (columns overlap but no suffix specified).
\<close>

definition pd_merge :: "frame \<Rightarrow> frame \<Rightarrow> string \<Rightarrow> string \<times> string \<Rightarrow> error + frame" where
  "pd_merge L R key suffixes =
     (if key \<in> set (columns L) \<and> key \<in> set (columns R)
      then
       if fst suffixes = [] \<and> snd suffixes = [] \<and>
          list_ex (\<lambda>c. c \<noteq> key \<and> c \<in> set (columns R)) (columns L)
       then Inl (ValueError ColumnsOverlapButNoSuffix)
       else Inr
        \<lparr>columns =
           map (\<lambda>c. if c \<noteq> key \<and> c \<in> set (columns R) then c @ fst suffixes else c) (columns L) @
           map (\<lambda>c. if c \<in> set (columns L) then c @ snd suffixes else c)
             (filter (\<lambda>c. c \<noteq> key) (columns R)),
         rows =
           concat (map (\<lambda>l.
             map (\<lambda>r. l @ drop_cells key (columns R) r)
               (filter (\<lambda>r. at_col (columns L) l key = at_col (columns R) r key) (rows R)))
             (rows L))\<rparr>
      else Inl KeyError)"

text \<open>
  \<^verbatim>\<open>pd.concat(frames)\<close>: an empty list raises; frames with the same labels are stacked;
  otherwise the labels are united in order of first appearance and the gaps are NaN.
\<close>

definition pd_concat :: "frame list \<Rightarrow> error + frame" where
  "pd_concat fs =
     (if fs = [] then Inl (ValueError NoObjectsToConcatenate)
      else if \<forall>f \<in> set fs. columns f = columns (hd fs)
      then Inr \<lparr>columns = columns (hd fs), rows = concat (map rows fs)\<rparr>
      else
        (let cols = first_occurrences [] (concat (map columns fs))
         in Inr \<lparr>columns = cols,
                 rows = concat (map (\<lambda>f. map (\<lambda>r. map (at_col (columns f) r) cols) (rows f)) fs)\<rparr>))"

section \<open>The Pair Representation Engine\<close>

text \<open>
  \<^verbatim>\<open>abs_diff_between_all_row_pairs\<close>. The broadcast difference has shape
  \<open>(|B|, |A|, F)\<close>: \<open>pairs_diffs ! j ! i\<close> is the row \<open>|A\<^sub>i - B\<^sub>j|\<close>.
\<close>

definition broadcast_abs_diff :: "frame \<Rightarrow> frame \<Rightarrow> error + cell list list list" where
  "broadcast_abs_diff A B =
     (if length (columns A) \<noteq> length (columns B) \<and> length (columns A) \<noteq> 1 \<and>
         length (columns B) \<noteq> 1
      then Inl (ValueError OperandsCouldNotBeBroadcast)
      else collect (map (\<lambda>b. collect (map (\<lambda>a. np_broadcast cell_abs_diff a b) (rows A)))
                     (rows B)))"

definition abs_diff_between_all_row_pairs :: "frame \<Rightarrow> frame \<Rightarrow> bool \<Rightarrow> error + frame" where
  "abs_diff_between_all_row_pairs DF_data_A DF_data_B within_A =
     (case broadcast_abs_diff DF_data_A DF_data_B of
        Inl e \<Rightarrow> Inl e
      | Inr pairs_diffs \<Rightarrow>
          (let num_examples = length (rows DF_data_A);
               num_features = length (columns DF_data_A);
               width = (if num_features = 1 then length (columns DF_data_B) else num_features)
           in
             if within_A then
               (if length pairs_diffs < num_examples - 1 then Inl IndexError
                else
                  (let pairs_within = map (\<lambda>i. drop (i + 1) (pairs_diffs ! i)) [0..<num_examples - 1]
                   in
                     if pairs_within = [] then Inl (ValueError NeedAtLeastOneArray)
                     else if width \<noteq> num_features then Inl (ValueError ShapeOfPassedValues)
                     else Inr \<lparr>columns = columns DF_data_A, rows = concat pairs_within\<rparr>))
             else
               (if num_features = 0 then Inl (ValueError CannotReshape)
                else if width = num_features
                then Inr \<lparr>columns = columns DF_data_A, rows = concat pairs_diffs\<rparr>
                else Inr \<lparr>columns = columns DF_data_A,
                          rows = map (\<lambda>c. [c]) (concat (concat pairs_diffs))\<rparr>)))"

text \<open>
  \<^verbatim>\<open>cartesian_product\<close>. The two frames are given by reference and are written to; when
  the two references are the same object, each assignment hits that one object.
\<close>

definition tmp_cart_prod_colname :: string where
  "tmp_cart_prod_colname = ''_tmp_cart_prod''"

definition tmp_row_number_colname :: string where
  "tmp_row_number_colname = ''_tmp_row_number''"

definition default_suffixes :: "string \<times> string" where
  "default_suffixes = (''_A'', ''_B'')"

text \<open>Lines 173 to 180: the assignments to the two objects.\<close>

definition cartesian_product_writes :: "ref \<Rightarrow> ref \<Rightarrow> bool \<Rightarrow> heap \<Rightarrow> heap" where
  "cartesian_product_writes DF_data_A DF_data_B within_A h0 =
     (let h1 = h0[DF_data_A := setitem_scalar tmp_cart_prod_colname (Num (Fin 0)) (h0 ! DF_data_A)];
          h2 = h1[DF_data_B := setitem_scalar tmp_cart_prod_colname (Num (Fin 0)) (h1 ! DF_data_B)];
          h3 = (if within_A
                then h2[DF_data_A := setitem_range tmp_row_number_colname (h2 ! DF_data_A)]
                else h2);
          h4 = (if within_A
                then h3[DF_data_B := setitem_range tmp_row_number_colname (h3 ! DF_data_B)]
                else h3)
      in h4)"

text \<open>Lines 182 to 196: the join of the two written frames, the filter and the drops.\<close>

definition cartesian_product_join ::
  "frame \<Rightarrow> frame \<Rightarrow> bool \<Rightarrow> string \<times> string \<Rightarrow> error + frame" where
  "cartesian_product_join DF_data_A DF_data_B within_A suffixes =
     (case pd_merge DF_data_A DF_data_B tmp_cart_prod_colname suffixes of
        Inl e \<Rightarrow> Inl e
      | Inr merged \<Rightarrow>
          (case drop_column tmp_cart_prod_colname merged of
             Inl e \<Rightarrow> Inl e
           | Inr DF_all_pairs \<Rightarrow>
               if within_A then
                 (let row_number_colname_A = tmp_row_number_colname @ fst suffixes;
                      row_number_colname_B = tmp_row_number_colname @ snd suffixes
                  in
                    case getitem row_number_colname_A DF_all_pairs of
                      Inl e \<Rightarrow> Inl e
                    | Inr numbers_A \<Rightarrow>
                        (case getitem row_number_colname_B DF_all_pairs of
                           Inl e \<Rightarrow> Inl e
                         | Inr numbers_B \<Rightarrow>
                             (let nonredundant_rows = map2 cell_gt numbers_A numbers_B;
                                  kept = DF_all_pairs
                                    \<lparr>rows := map snd (filter fst
                                       (zip nonredundant_rows (rows DF_all_pairs)))\<rparr>
                              in
                                case drop_column row_number_colname_A kept of
                                  Inl e \<Rightarrow> Inl e
                                | Inr kept_A \<Rightarrow> drop_column row_number_colname_B kept_A)))
               else Inr DF_all_pairs))"

definition cartesian_product ::
  "ref \<Rightarrow> ref \<Rightarrow> bool \<Rightarrow> string \<times> string \<Rightarrow> heap \<Rightarrow> (error + frame) \<times> heap" where
  "cartesian_product DF_data_A DF_data_B within_A suffixes h0 =
     (let h = cartesian_product_writes DF_data_A DF_data_B within_A h0
      in (cartesian_product_join (h ! DF_data_A) (h ! DF_data_B) within_A suffixes, h))"

text \<open>\<^verbatim>\<open>get_pair_data\<close>: without a second frame, the second frame is the first object.\<close>

definition get_pair_data :: "bool \<Rightarrow> ref \<Rightarrow> ref option \<Rightarrow> heap \<Rightarrow> (error + frame) \<times> heap" where
  "get_pair_data only_feature_diffs DF_data_A DF_data_B h =
     (let within_A = (DF_data_B = None);
          DF_data_B' = (case DF_data_B of None \<Rightarrow> DF_data_A | Some b \<Rightarrow> b)
      in
        if only_feature_diffs
        then (abs_diff_between_all_row_pairs (h ! DF_data_A) (h ! DF_data_B') within_A, h)
        else cartesian_product DF_data_A DF_data_B' within_A default_suffixes h)"

section \<open>The generator\<close>

text \<open>
  \<^verbatim>\<open>for x in xs: all_pair_DFs.append(body(x))\<close>, the store threaded through and the
  first exception ending the loop.
\<close>

fun for_loop ::
  "('x \<Rightarrow> heap \<Rightarrow> (error + frame) \<times> heap) \<Rightarrow> 'x list \<Rightarrow> heap \<Rightarrow> (error + frame list) \<times> heap" where
  "for_loop body [] h = (Inr [], h)"
| "for_loop body (x # xs) h =
     (case body x h of
        (Inl e, h') \<Rightarrow> (Inl e, h')
      | (Inr f, h') \<Rightarrow>
          (case for_loop body xs h' of
             (Inl e, h'') \<Rightarrow> (Inl e, h'')
           | (Inr fs, h'') \<Rightarrow> (Inr (f # fs), h'')))"

text \<open>The pairs \<open>(i, j)\<close> of the two nested \<^verbatim>\<open>range\<close> loops, in their order.\<close>

definition negative_worklist :: "nat \<Rightarrow> (nat \<times> nat) list" where
  "negative_worklist num_users =
     concat (map (\<lambda>i. map (\<lambda>j. (i, j)) [i + 1..<num_users]) [0..<num_users - 1])"

text \<open>\<^verbatim>\<open>DF_registration.loc[DF_registration['user_name'] == user_name, feature_names]\<close>\<close>

definition user_rows :: "frame \<Rightarrow> cell \<Rightarrow> string list \<Rightarrow> error + frame" where
  "user_rows DF user_name feature_names =
     (case getitem ''user_name'' DF of
        Inl e \<Rightarrow> Inl e
      | Inr names \<Rightarrow> loc (map (\<lambda>x. cell_eq x user_name) names) feature_names DF)"

definition negative_body ::
  "ref \<Rightarrow> string list \<Rightarrow> bool \<Rightarrow> cell list \<Rightarrow> nat \<times> nat \<Rightarrow> heap \<Rightarrow> (error + frame) \<times> heap" where
  "negative_body DF_registration feature_names only_feature_diffs user_names ij h =
     (let user_name_A = user_names ! fst ij; user_name_B = user_names ! snd ij in
        case user_rows (h ! DF_registration) user_name_A feature_names of
          Inl e \<Rightarrow> (Inl e, h)
        | Inr features_A \<Rightarrow>
            (case user_rows (h ! DF_registration) user_name_B feature_names of
               Inl e \<Rightarrow> (Inl e, h)
             | Inr features_B \<Rightarrow>
                 (let (DF_features_A, h1) = alloc features_A h;
                      (DF_features_B, h2) = alloc features_B h1
                  in get_pair_data only_feature_diffs DF_features_A (Some DF_features_B) h2)))"

definition positive_body ::
  "ref \<Rightarrow> string list \<Rightarrow> bool \<Rightarrow> cell \<Rightarrow> heap \<Rightarrow> (error + frame) \<times> heap" where
  "positive_body DF_registration feature_names only_feature_diffs user_name h =
     (case user_rows (h ! DF_registration) user_name feature_names of
        Inl e \<Rightarrow> (Inl e, h)
      | Inr features \<Rightarrow>
          (let (DF_features, h1) = alloc features h
           in get_pair_data only_feature_diffs DF_features None h1))"

definition extract_pairs ::
  "ref \<Rightarrow> string list \<Rightarrow> bool \<Rightarrow> heap \<Rightarrow> (error + frame) \<times> heap" where
  "extract_pairs DF_registration feature_names only_feature_diffs h =
     (if only_feature_diffs \<and> ''sequence'' \<in> set feature_names
      then (Inl (ValueError SequenceInFeatureNames), h)
      else
        case getitem ''user_name'' (h ! DF_registration) of
          Inl e \<Rightarrow> (Inl e, h)
        | Inr names \<Rightarrow>
            (case pd_unique names of
               Inl e \<Rightarrow> (Inl e, h)
             | Inr user_names \<Rightarrow>
                 (case for_loop
                         (negative_body DF_registration feature_names only_feature_diffs user_names)
                         (negative_worklist (length user_names)) h of
                    (Inl e, h1) \<Rightarrow> (Inl e, h1)
                  | (Inr negative_DFs, h1) \<Rightarrow>
                      (case pd_concat negative_DFs of
                         Inl e \<Rightarrow> (Inl e, h1)
                       | Inr DF_negative \<Rightarrow>
                           (case for_loop
                                   (positive_body DF_registration feature_names only_feature_diffs)
                                   user_names h1 of
                              (Inl e, h2) \<Rightarrow> (Inl e, h2)
                            | (Inr positive_DFs, h2) \<Rightarrow>
                                (case pd_concat positive_DFs of
                                   Inl e \<Rightarrow> (Inl e, h2)
                                 | Inr DF_positive \<Rightarrow>
                                     (pd_concat
                                        [setitem_scalar ''label'' (Num (Fin 0)) DF_negative,
                                         setitem_scalar ''label'' (Num (Fin 1)) DF_positive],
                                      h2)))))))"

section \<open>Row pairs by index, as the specification words them\<close>

text \<open>
  The cross join of a group of \<open>n\<close> rows with itself pairs the row numbers
  \<open>(index_A, index_B)\<close>, the left row varying slowest. The specification speaks of
  the pairs with \<open>index_A < index_B\<close>; the other strict half has \<open>index_A > index_B\<close>.
\<close>

definition cross_join_index_pairs :: "nat \<Rightarrow> (nat \<times> nat) list" where
  "cross_join_index_pairs n = List.product [0..<n] [0..<n]"

definition index_pairs_A_less :: "nat \<Rightarrow> (nat \<times> nat) list" where
  "index_pairs_A_less n = filter (\<lambda>(index_A, index_B). index_A < index_B) (cross_join_index_pairs n)"

definition index_pairs_A_greater :: "nat \<Rightarrow> (nat \<times> nat) list" where
  "index_pairs_A_greater n = filter (\<lambda>(index_A, index_B). index_A > index_B) (cross_join_index_pairs n)"

text \<open>
  The pairs \<open>(index_A, index_B)\<close> of the rows that diff mode keeps within a group, in
  the order of its slices: slice \<open>i\<close> is \<^verbatim>\<open>pairs_diffs[i, i+1:]\<close>, the rows
  \<open>|A\<^sub>k - B\<^sub>i|\<close> for \<open>k\<close> from \<open>i + 1\<close>.
\<close>

definition diff_within_index_pairs :: "nat \<Rightarrow> (nat \<times> nat) list" where
  "diff_within_index_pairs n =
     concat (map (\<lambda>index_B. map (\<lambda>index_A. (index_A, index_B)) [index_B + 1..<n]) [0..<n - 1])"

text \<open>
  The deduplication rule of the specification for a group of \<open>n\<close> rows: no pair
  \<open>(i, i)\<close>, each unordered pair of two row numbers exactly once (in one of its two
  orders, and once), which makes \<open>n\<cdot>(n-1)/2\<close> pairs.
\<close>

definition each_pair_once :: "nat \<Rightarrow> (nat \<times> nat) list \<Rightarrow> bool" where
  "each_pair_once n pairs =
     (distinct pairs \<and>
      (\<forall>(i, j) \<in> set pairs. i < n \<and> j < n \<and> i \<noteq> j) \<and>
      (\<forall>i < n. \<forall>j < n. i \<noteq> j \<longrightarrow> ((i, j) \<in> set pairs) \<noteq> ((j, i) \<in> set pairs)) \<and>
      length pairs = n * (n - 1) div 2)"

text \<open>The concat-mode row of a pair of row numbers: the row of A, then the row of B.\<close>

definition concat_pair_rows :: "frame \<Rightarrow> (nat \<times> nat) list \<Rightarrow> cell list list" where
  "concat_pair_rows G pairs = map (\<lambda>(index_A, index_B). rows G ! index_A @ rows G ! index_B) pairs"

text \<open>
  The elementwise absolute difference of the two blocks of a concat-mode row over \<open>F\<close>
  feature columns.
\<close>

definition block_abs_diff :: "nat \<Rightarrow> cell list \<Rightarrow> error + cell list" where
  "block_abs_diff F r = np_broadcast cell_abs_diff (take F r) (drop F r)"

text \<open>A frame of numbers: the feature columns the specification has in mind.\<close>

fun is_Num :: "cell \<Rightarrow> bool" where
  "is_Num (Num _) = True"
| "is_Num _ = False"

definition numeric :: "frame \<Rightarrow> bool" where
  "numeric f = list_all (list_all is_Num) (rows f)"

text \<open>
  The labels of a Pair Representation Table for the feature names \<open>fn\<close>: the names
  themselves in diff mode, each name under the two suffixes in concat mode.
\<close>

definition pair_schema :: "bool \<Rightarrow> string list \<Rightarrow> string list" where
  "pair_schema only_feature_diffs fn =
     (if only_feature_diffs then fn
      else map (\<lambda>c. c @ ''_A'') fn @ map (\<lambda>c. c @ ''_B'') fn)"

text \<open>The feature columns \<open>fn\<close> of a table hold numbers.\<close>

definition numeric_features :: "frame \<Rightarrow> string list \<Rightarrow> bool" where
  "numeric_features T fn =
     list_all (\<lambda>row. list_all (\<lambda>c. is_Num (at_col (columns T) row c)) fn) (rows T)"

section \<open>Row counts, as the specification words them\<close>

text \<open>The number of rows of a dataset whose \<open>label\<close> is \<open>v\<close>.\<close>

definition count_label :: "cell \<Rightarrow> frame \<Rightarrow> nat" where
  "count_label v out = length (filter (\<lambda>r. at_col (columns out) r ''label'' = v) (rows out))"

text \<open>The size of the group of a subject: the rows of the table with its name.\<close>

definition group_size :: "frame \<Rightarrow> cell \<Rightarrow> nat" where
  "group_size T u =
     (case getitem ''user_name'' T of
        Inl e \<Rightarrow> 0
      | Inr names \<Rightarrow> length (filter (\<lambda>x. cell_eq x u) names))"

text \<open>
  For group sizes \<open>n\<^sub>1 \<dots> n\<^sub>U\<close>: the sum over \<open>i < j\<close> of \<open>n\<^sub>i\<cdot>n\<^sub>j\<close>, and the sum
  over \<open>i\<close> of \<open>n\<^sub>i\<cdot>(n\<^sub>i-1)/2\<close>.
\<close>

definition expected_negative_rows :: "nat list \<Rightarrow> nat" where
  "expected_negative_rows ns =
     sum_list (map (\<lambda>(i, j). ns ! i * ns ! j)
       (filter (\<lambda>(i, j). i < j) (List.product [0..<length ns] [0..<length ns])))"

definition expected_positive_rows :: "nat list \<Rightarrow> nat" where
  "expected_positive_rows ns = sum_list (map (\<lambda>n. n * (n - 1) div 2) ns)"

section \<open>Example tables\<close>

text \<open>Three subjects with 2, 1 and 2 rows, and one numeric feature.\<close>

definition table_212 :: frame where
  "table_212 =
     \<lparr>columns = [''user_name'', ''f''],
      rows = [[Str ''A'', Num (Fin 1)], [Str ''A'', Num (Fin 4)], [Str ''B'', Num (Fin 10)],
              [Str ''C'', Num (Fin 20)], [Str ''C'', Num (Fin 26)]]\<rparr>"

text \<open>A single subject with 3 rows.\<close>

definition table_3 :: frame where
  "table_3 =
     \<lparr>columns = [''user_name'', ''f''],
      rows = [[Str ''A'', Num (Fin 1)], [Str ''A'', Num (Fin 4)], [Str ''A'', Num (Fin 10)]]\<rparr>"

text \<open>Row groups of 1, 2 and 3 rows over the feature columns \<open>f\<close> and \<open>g\<close>.\<close>

definition group_1 :: frame where
  "group_1 = \<lparr>columns = [''f'', ''g''], rows = [[Num (Fin 1), Num (Fin 5)]]\<rparr>"

definition group_2 :: frame where
  "group_2 = \<lparr>columns = [''f'', ''g''],
              rows = [[Num (Fin 1), Num (Fin 5)], [Num (Fin 4), Num (Fin 7)]]\<rparr>"

definition group_3 :: frame where
  "group_3 = \<lparr>columns = [''f'', ''g''],
              rows = [[Num (Fin 1), Num (Fin 5)], [Num (Fin 4), Num (Fin 7)],
                      [Num (Fin 10), Num (Fin 0)]]\<rparr>"

text \<open>Two subjects whose feature \<open>keys\<close> holds sequences of different lengths.\<close>

definition table_seq :: frame where
  "table_seq =
     \<lparr>columns = [''user_name'', ''keys''],
      rows = [[Str ''A'', Seq [Fin 0, Fin 3]], [Str ''A'', Seq [Fin 0, Fin 2, Fin 9]],
              [Str ''B'', Seq [Fin 0]], [Str ''B'', Seq [Fin 0, Fin 1, Fin 2, Fin 8]]]\<rparr>"

text \<open>The dataset of \<open>table_212\<close> in concat mode, as the generator returns it.\<close>

definition dataset_212_concat :: frame where
  "dataset_212_concat =
     \<lparr>columns = [''f_A'', ''f_B'', ''label''],
      rows = [[Num (Fin 1), Num (Fin 10), Num (Fin 0)],
              [Num (Fin 4), Num (Fin 10), Num (Fin 0)],
              [Num (Fin 1), Num (Fin 20), Num (Fin 0)],
              [Num (Fin 1), Num (Fin 26), Num (Fin 0)],
              [Num (Fin 4), Num (Fin 20), Num (Fin 0)],
              [Num (Fin 4), Num (Fin 26), Num (Fin 0)],
              [Num (Fin 10), Num (Fin 20), Num (Fin 0)],
              [Num (Fin 10), Num (Fin 26), Num (Fin 0)],
              [Num (Fin 4), Num (Fin 1), Num (Fin 1)],
              [Num (Fin 26), Num (Fin 20), Num (Fin 1)]]\<rparr>"


section \<open>Which exceptions each operation raises\<close>

lemma collect_Inl: "collect xs = Inl e \<Longrightarrow> Inl e \<in> set xs"
  by (induction xs) (auto split: sum.splits)

lemma collect_Inr: "collect xs = Inr vs \<Longrightarrow> xs = map Inr vs"
  by (induction xs arbitrary: vs) (auto split: sum.splits)

lemma collect_map_Inr [simp]: "collect (map Inr vs) = Inr vs"
  by (induction vs) auto

lemma np_broadcast_Inl:
  assumes "np_broadcast f xs ys = Inl e"
  shows "e = ValueError OperandsCouldNotBeBroadcast \<or> (\<exists>x y. f x y = Inl e)"
proof (cases "e = ValueError OperandsCouldNotBeBroadcast")
  case True
  then show ?thesis by simp
next
  case False
  with assms have "Inl e \<in> set (map2 f xs ys) \<or> Inl e \<in> set (map (f (hd xs)) ys)
      \<or> Inl e \<in> set (map (\<lambda>x. f x (hd ys)) xs)"
    unfolding np_broadcast_def by (auto split: if_splits dest: collect_Inl)
  then have "\<exists>x y. f x y = Inl e"
    by (auto simp: in_set_zip) metis+
  then show ?thesis by simp
qed

lemma cell_abs_diff_Inl:
  "cell_abs_diff a b = Inl e \<Longrightarrow> e = TypeError \<or> e = ValueError OperandsCouldNotBeBroadcast"
  by (cases "(a, b)" rule: cell_abs_diff.cases) (auto split: sum.splits dest: np_broadcast_Inl)

lemma broadcast_abs_diff_Inl:
  assumes "broadcast_abs_diff A B = Inl e"
  shows "e = TypeError \<or> e = ValueError OperandsCouldNotBeBroadcast"
proof (cases "e = ValueError OperandsCouldNotBeBroadcast")
  case True
  then show ?thesis by simp
next
  case False
  with assms have
    "collect (map (\<lambda>b. collect (map (\<lambda>a. np_broadcast cell_abs_diff a b) (rows A))) (rows B)) = Inl e"
    unfolding broadcast_abs_diff_def by (simp split: if_splits)
  then obtain b where "collect (map (\<lambda>a. np_broadcast cell_abs_diff a b) (rows A)) = Inl e"
    by (auto dest!: collect_Inl)
  then obtain a where "np_broadcast cell_abs_diff a b = Inl e"
    by (auto dest!: collect_Inl)
  then show ?thesis
    by (auto dest!: np_broadcast_Inl cell_abs_diff_Inl)
qed

lemma abs_diff_between_all_row_pairs_Inl:
  assumes "abs_diff_between_all_row_pairs A B w = Inl e"
  shows "e \<noteq> ValueError SequenceInFeatureNames"
proof (cases "broadcast_abs_diff A B")
  case (Inl e')
  with assms have "e = e'" by (simp add: abs_diff_between_all_row_pairs_def)
  with Inl show ?thesis by (auto dest: broadcast_abs_diff_Inl)
next
  case (Inr d)
  with assms show ?thesis
    by (auto simp add: abs_diff_between_all_row_pairs_def Let_def split: if_splits)
qed

lemma getitem_Inl: "getitem name f = Inl e \<Longrightarrow> e = KeyError"
  by (simp add: getitem_def split: if_splits)

lemma drop_column_Inl: "drop_column name f = Inl e \<Longrightarrow> e = KeyError"
  by (simp add: drop_column_def split: if_splits)

lemma pd_merge_Inl:
  "pd_merge L R key s = Inl e \<Longrightarrow> e = KeyError \<or> e = ValueError ColumnsOverlapButNoSuffix"
  by (simp add: pd_merge_def split: if_splits)

lemma loc_Inl: "loc sel names f = Inl e \<Longrightarrow> e = KeyError"
  by (simp add: loc_def split: if_splits)

lemma pd_unique_Inl: "pd_unique xs = Inl e \<Longrightarrow> e = TypeError"
  by (simp add: pd_unique_def split: if_splits)

lemma if_Inr_neq_Inl: "(if c then Inr a else Inr b) \<noteq> Inl e"
  by simp

lemma pd_concat_Nil: "pd_concat [] = Inl (ValueError NoObjectsToConcatenate)"
  by (simp add: pd_concat_def)

lemma pd_concat_Inl:
  assumes "pd_concat fs = Inl e"
  shows "e = ValueError NoObjectsToConcatenate"
proof (cases "fs = []")
  case True
  with assms show ?thesis by (simp add: pd_concat_Nil)
next
  case False
  have "pd_concat fs \<noteq> Inl e"
    by (simp only: pd_concat_def Let_def if_not_P [OF False] if_Inr_neq_Inl not_False_eq_True)
  with assms show ?thesis by simp
qed

lemma pd_concat_same_columns:
  assumes "fs \<noteq> []" and "\<forall>f \<in> set fs. columns f = cs"
  shows "pd_concat fs = Inr \<lparr>columns = cs, rows = concat (map rows fs)\<rparr>"
proof -
  from assms have hd: "columns (hd fs) = cs" by simp
  with assms(2) have same: "\<forall>f \<in> set fs. columns f = columns (hd fs)" by simp
  have "pd_concat fs = Inr \<lparr>columns = columns (hd fs), rows = concat (map rows fs)\<rparr>"
    by (simp only: pd_concat_def if_not_P [OF assms(1)] if_P [OF same])
  with hd show ?thesis by simp
qed

lemma user_rows_Inl: "user_rows DF u fn = Inl e \<Longrightarrow> e = KeyError"
  by (auto simp: user_rows_def split: sum.splits dest: getitem_Inl loc_Inl)

lemma cartesian_product_join_Inl:
  "cartesian_product_join A B w s = Inl e \<Longrightarrow>
     e = KeyError \<or> e = ValueError ColumnsOverlapButNoSuffix"
  unfolding cartesian_product_join_def Let_def
  by (auto split: sum.splits if_splits dest: getitem_Inl drop_column_Inl pd_merge_Inl)

lemma get_pair_data_Inl:
  "fst (get_pair_data flag a b h) = Inl e \<Longrightarrow> e \<noteq> ValueError SequenceInFeatureNames"
  unfolding get_pair_data_def cartesian_product_def Let_def
  by (auto split: if_splits dest: cartesian_product_join_Inl abs_diff_between_all_row_pairs_Inl)

lemma negative_body_Inl:
  "fst (negative_body r fn flag us ij h) = Inl e \<Longrightarrow> e \<noteq> ValueError SequenceInFeatureNames"
  unfolding negative_body_def Let_def alloc_def
  by (auto split: sum.splits prod.splits dest: user_rows_Inl get_pair_data_Inl)

lemma positive_body_Inl:
  "fst (positive_body r fn flag u h) = Inl e \<Longrightarrow> e \<noteq> ValueError SequenceInFeatureNames"
  unfolding positive_body_def Let_def alloc_def
  by (auto split: sum.splits prod.splits dest: user_rows_Inl get_pair_data_Inl)

lemma for_loop_Inl:
  assumes body: "\<And>x h e. fst (body x h) = Inl e \<Longrightarrow> P e"
  shows "fst (for_loop body xs h) = Inl e \<Longrightarrow> P e"
proof (induction xs arbitrary: h)
  case Nil
  then show ?case by simp
next
  case (Cons x xs)
  show ?case
  proof (cases "body x h")
    case (Pair res h')
    show ?thesis
    proof (cases res)
      case (Inl e')
      with Pair Cons.prems have "fst (body x h) = Inl e" by simp
      then show ?thesis by (rule body)
    next
      case (Inr f)
      with Pair Cons.prems have "fst (for_loop body xs h') = Inl e"
        by (auto split: prod.splits sum.splits)
      then show ?thesis by (rule Cons.IH)
    qed
  qed
qed

lemma negative_loop_Inl:
  "for_loop (negative_body r fn flag us) xs h = (Inl e, h') \<Longrightarrow>
   e \<noteq> ValueError SequenceInFeatureNames"
  using for_loop_Inl [where body = "negative_body r fn flag us"
      and P = "\<lambda>e. e \<noteq> ValueError SequenceInFeatureNames" and xs = xs and h = h and e = e]
    negative_body_Inl
  by auto

lemma positive_loop_Inl:
  "for_loop (positive_body r fn flag) xs h = (Inl e, h') \<Longrightarrow>
   e \<noteq> ValueError SequenceInFeatureNames"
  using for_loop_Inl [where body = "positive_body r fn flag"
      and P = "\<lambda>e. e \<noteq> ValueError SequenceInFeatureNames" and xs = xs and h = h and e = e]
    positive_body_Inl
  by auto

lemma extract_pairs_not_config_error:
  assumes "\<not> (flag \<and> ''sequence'' \<in> set fn)"
  shows "fst (extract_pairs r fn flag h) \<noteq> Inl (ValueError SequenceInFeatureNames)"
  using assms unfolding extract_pairs_def
  by (auto split: sum.splits prod.splits
      dest: getitem_Inl pd_unique_Inl pd_concat_Inl negative_loop_Inl positive_loop_Inl)

section \<open>The configuration check\<close>

text \<open>
  Claim C6. With \<open>only_feature_diffs\<close> set and \<open>sequence\<close> among the feature
  names, the generator raises the configuration error and nothing else happens: the
  result is the error and the store is the one it was given (no slice was taken, no
  frame was written). With any other combination of flag and feature names, that
  error is not raised.
\<close>

theorem extract_pairs_config_error:
  "(only_feature_diffs \<and> ''sequence'' \<in> set feature_names \<longrightarrow>
      extract_pairs r feature_names only_feature_diffs h =
        (Inl (ValueError SequenceInFeatureNames), h)) \<and>
   (\<not> (only_feature_diffs \<and> ''sequence'' \<in> set feature_names) \<longrightarrow>
      fst (extract_pairs r feature_names only_feature_diffs h) \<noteq>
        Inl (ValueError SequenceInFeatureNames))"
  using extract_pairs_not_config_error [of only_feature_diffs feature_names r h]
  by (simp add: extract_pairs_def)

theorem extract_pairs_config_error_witness:
  "extract_pairs 0 [''f'', ''sequence''] True [table_212] =
     (Inl (ValueError SequenceInFeatureNames), [table_212]) \<and>
   fst (extract_pairs 0 [''f'', ''sequence''] False [table_212]) \<noteq>
     Inl (ValueError SequenceInFeatureNames) \<and>
   fst (extract_pairs 0 [''f''] True [table_212]) \<noteq> Inl (ValueError SequenceInFeatureNames)"
  using extract_pairs_config_error [of True "[''f'', ''sequence'']" 0 "[table_212]"]
    extract_pairs_config_error [of False "[''f'', ''sequence'']" 0 "[table_212]"]
    extract_pairs_config_error [of True "[''f'']" 0 "[table_212]"]
  by simp

text \<open>
  Claim C10. The check reads the feature names only: in diff mode the configuration
  error is raised exactly when the name \<open>sequence\<close> is among them, whatever the
  table holds, so two tables get the same verdict for the same names, and a column of
  sequences under another name passes the check.
\<close>

theorem config_check_name_based:
  "(fst (extract_pairs r fn True h) = Inl (ValueError SequenceInFeatureNames)) =
     (''sequence'' \<in> set fn) \<and>
   (fst (extract_pairs r fn flag h) = Inl (ValueError SequenceInFeatureNames)) =
     (fst (extract_pairs r' fn flag h') = Inl (ValueError SequenceInFeatureNames))"
proof -
  have "(fst (extract_pairs q fn b s) = Inl (ValueError SequenceInFeatureNames)) =
      (b \<and> ''sequence'' \<in> set fn)" for q b s
    using extract_pairs_not_config_error [of b fn q s]
    by (cases "b \<and> ''sequence'' \<in> set fn") (simp_all add: extract_pairs_def)
  then show ?thesis by simp
qed

theorem config_check_name_based_witness:
  "fst (extract_pairs 0 [''keys''] True [table_seq]) \<noteq> Inl (ValueError SequenceInFeatureNames) \<and>
   fst (extract_pairs 0 [''sequence''] True [table_seq]) = Inl (ValueError SequenceInFeatureNames)"
  using config_check_name_based [of 0 "[''keys'']" "[table_seq]"]
    config_check_name_based [of 0 "[''sequence'']" "[table_seq]"]
  by simp

section \<open>The generator and the store\<close>

text \<open>
  The slices the generator takes are new objects at the end of the store, and the
  engine writes to these only. So the value a call returns is the one it returns in a
  store that holds the table alone, and the store it leaves is the one it was given
  followed by the slices.
\<close>

lemma cartesian_product_writes_append:
  "cartesian_product_writes (length h + a) (length h + b) w (h @ new) =
   h @ cartesian_product_writes a b w new"
  by (simp add: cartesian_product_writes_def Let_def list_update_append nth_append)

lemma length_cartesian_product_writes [simp]:
  "length (cartesian_product_writes a b w h) = length h"
  by (simp add: cartesian_product_writes_def Let_def)

lemma cartesian_product_append:
  "cartesian_product (length h + a) (length h + b) w s (h @ new) =
   (fst (cartesian_product a b w s new), h @ snd (cartesian_product a b w s new))"
  by (simp add: cartesian_product_def Let_def cartesian_product_writes_append nth_append)

lemma get_pair_data_append:
  "get_pair_data flag (length h + a) (map_option (\<lambda>b. length h + b) bo) (h @ new) =
   (fst (get_pair_data flag a bo new), h @ snd (get_pair_data flag a bo new))"
  by (cases bo) (simp_all add: get_pair_data_def Let_def cartesian_product_append nth_append)

lemma negative_body_store:
  assumes "r < length h"
  shows "negative_body r fn flag us ij h =
    (fst (negative_body 0 fn flag us ij [h ! r]),
     h @ tl (snd (negative_body 0 fn flag us ij [h ! r])))"
proof (cases "user_rows (h ! r) (us ! fst ij) fn")
  case (Inl e)
  then show ?thesis by (simp add: negative_body_def Let_def)
next
  case A: (Inr A)
  show ?thesis
  proof (cases "user_rows (h ! r) (us ! snd ij) fn")
    case (Inl e)
    with A show ?thesis by (simp add: negative_body_def Let_def)
  next
    case B: (Inr B)
    have 1: "get_pair_data flag (length h) (Some (Suc (length h))) (h @ [A, B]) =
        (fst (get_pair_data flag 0 (Some 1) [A, B]), h @ snd (get_pair_data flag 0 (Some 1) [A, B]))"
      using get_pair_data_append [of flag h 0 "Some 1" "[A, B]"] by simp
    have 2: "get_pair_data flag (Suc 0) (Some (Suc (Suc 0))) [h ! r, A, B] =
        (fst (get_pair_data flag 0 (Some 1) [A, B]), (h ! r) # snd (get_pair_data flag 0 (Some 1) [A, B]))"
      using get_pair_data_append [of flag "[h ! r]" 0 "Some 1" "[A, B]"] by simp
    from A B 1 2 show ?thesis
      by (simp add: negative_body_def Let_def alloc_def)
  qed
qed

lemma positive_body_store:
  assumes "r < length h"
  shows "positive_body r fn flag u h =
    (fst (positive_body 0 fn flag u [h ! r]),
     h @ tl (snd (positive_body 0 fn flag u [h ! r])))"
proof (cases "user_rows (h ! r) u fn")
  case (Inl e)
  then show ?thesis by (simp add: positive_body_def Let_def)
next
  case A: (Inr A)
  have 1: "get_pair_data flag (length h) None (h @ [A]) =
      (fst (get_pair_data flag 0 None [A]), h @ snd (get_pair_data flag 0 None [A]))"
    using get_pair_data_append [of flag h 0 None "[A]"] by simp
  have 2: "get_pair_data flag (Suc 0) None [h ! r, A] =
      (fst (get_pair_data flag 0 None [A]), (h ! r) # snd (get_pair_data flag 0 None [A]))"
    using get_pair_data_append [of flag "[h ! r]" 0 None "[A]"] by simp
  from A 1 2 show ?thesis
    by (simp add: positive_body_def Let_def alloc_def)
qed

text \<open>A loop whose body returns a value that does not depend on the store, and only appends to it.\<close>

lemma for_loop_value:
  assumes body: "\<And>x h. I h \<Longrightarrow> fst (body x h) = g x \<and> I (snd (body x h))"
    and "I h"
  shows "fst (for_loop body xs h) = collect (map g xs) \<and> I (snd (for_loop body xs h))"
  using \<open>I h\<close>
proof (induction xs arbitrary: h)
  case Nil
  then show ?case by simp
next
  case (Cons x xs)
  from body [OF Cons.prems, of x] have b: "fst (body x h) = g x" and i: "I (snd (body x h))"
    by simp_all
  from Cons.IH [OF i] b i show ?case
    by (cases "body x h") (auto split: sum.splits prod.splits)
qed

lemma negative_loop_store:
  assumes "r < length h"
  shows "fst (for_loop (negative_body r fn flag us) xs h) =
      collect (map (\<lambda>ij. fst (negative_body 0 fn flag us ij [h ! r])) xs) \<and>
    (\<exists>new. snd (for_loop (negative_body r fn flag us) xs h) = h @ new)"
proof -
  let ?I = "\<lambda>h'. \<exists>new. h' = h @ new"
  have "fst (negative_body r fn flag us x h') = fst (negative_body 0 fn flag us x [h ! r]) \<and>
      ?I (snd (negative_body r fn flag us x h'))" if "?I h'" for x h'
  proof -
    from that obtain new where h': "h' = h @ new" by blast
    with assms have "r < length h'" "h' ! r = h ! r" by (simp_all add: nth_append)
    with negative_body_store [of r h' fn flag us x] h' show ?thesis by simp
  qed
  from for_loop_value [where I = ?I and body = "negative_body r fn flag us", OF this, of h xs]
  show ?thesis by simp
qed

lemma positive_loop_store:
  assumes "r < length h"
  shows "fst (for_loop (positive_body r fn flag) xs h) =
      collect (map (\<lambda>u. fst (positive_body 0 fn flag u [h ! r])) xs) \<and>
    (\<exists>new. snd (for_loop (positive_body r fn flag) xs h) = h @ new)"
proof -
  let ?I = "\<lambda>h'. \<exists>new. h' = h @ new"
  have "fst (positive_body r fn flag x h') = fst (positive_body 0 fn flag x [h ! r]) \<and>
      ?I (snd (positive_body r fn flag x h'))" if "?I h'" for x h'
  proof -
    from that obtain new where h': "h' = h @ new" by blast
    with assms have "r < length h'" "h' ! r = h ! r" by (simp_all add: nth_append)
    with positive_body_store [of r h' fn flag x] h' show ?thesis by simp
  qed
  from for_loop_value [where I = ?I and body = "positive_body r fn flag", OF this, of h xs]
  show ?thesis by simp
qed

lemma extract_pairs_value:
  assumes r: "r < length h"
    and names: "getitem ''user_name'' (h ! r) = Inr names"
    and us: "pd_unique names = Inr us"
    and ok: "\<not> (flag \<and> ''sequence'' \<in> set fn)"
  shows "fst (extract_pairs r fn flag h) =
     (case collect (map (\<lambda>ij. fst (negative_body 0 fn flag us ij [h ! r]))
                     (negative_worklist (length us))) of
        Inl e \<Rightarrow> Inl e
      | Inr negative_DFs \<Rightarrow>
          (case pd_concat negative_DFs of
             Inl e \<Rightarrow> Inl e
           | Inr DF_negative \<Rightarrow>
               (case collect (map (\<lambda>u. fst (positive_body 0 fn flag u [h ! r])) us) of
                  Inl e \<Rightarrow> Inl e
                | Inr positive_DFs \<Rightarrow>
                    (case pd_concat positive_DFs of
                       Inl e \<Rightarrow> Inl e
                     | Inr DF_positive \<Rightarrow>
                         pd_concat [setitem_scalar ''label'' (Num (Fin 0)) DF_negative,
                                    setitem_scalar ''label'' (Num (Fin 1)) DF_positive]))))"
    (is "_ = ?V")
    and "\<exists>new. snd (extract_pairs r fn flag h) = h @ new"
proof -
  obtain res1 h1 where l1:
    "for_loop (negative_body r fn flag us) (negative_worklist (length us)) h = (res1, h1)"
    by (cases "for_loop (negative_body r fn flag us) (negative_worklist (length us)) h")
  from negative_loop_store [OF r, of fn flag us "negative_worklist (length us)"] l1
  have res1: "res1 = collect (map (\<lambda>ij. fst (negative_body 0 fn flag us ij [h ! r]))
                     (negative_worklist (length us)))"
    and "\<exists>new. h1 = h @ new" by simp_all
  then obtain new1 where h1: "h1 = h @ new1" by blast
  with r have r1: "r < length h1" and t1: "h1 ! r = h ! r" by (simp_all add: nth_append)
  obtain res2 h2 where l2: "for_loop (positive_body r fn flag) us h1 = (res2, h2)"
    by (cases "for_loop (positive_body r fn flag) us h1")
  from positive_loop_store [OF r1, of fn flag us] l2 t1
  have res2: "res2 = collect (map (\<lambda>u. fst (positive_body 0 fn flag u [h ! r])) us)"
    and "\<exists>new. h2 = h1 @ new" by simp_all
  then obtain new2 where h2: "h2 = h @ new1 @ new2" using h1 by auto
  have e: "extract_pairs r fn flag h =
    (case res1 of
       Inl e \<Rightarrow> (Inl e, h1)
     | Inr negative_DFs \<Rightarrow>
         (case pd_concat negative_DFs of
            Inl e \<Rightarrow> (Inl e, h1)
          | Inr DF_negative \<Rightarrow>
              (case res2 of
                 Inl e \<Rightarrow> (Inl e, h2)
               | Inr positive_DFs \<Rightarrow>
                   (case pd_concat positive_DFs of
                      Inl e \<Rightarrow> (Inl e, h2)
                    | Inr DF_positive \<Rightarrow>
                        (pd_concat [setitem_scalar ''label'' (Num (Fin 0)) DF_negative,
                                    setitem_scalar ''label'' (Num (Fin 1)) DF_positive], h2)))))"
    unfolding extract_pairs_def if_not_P [OF ok] using names us l1 l2
    by (simp split: sum.splits)
  show "fst (extract_pairs r fn flag h) = ?V"
    unfolding e res1 [symmetric] res2 [symmetric] by (simp split: sum.splits)
  show "\<exists>new. snd (extract_pairs r fn flag h) = h @ new"
    unfolding e using h1 h2 by (simp split: sum.splits)
qed


lemma extract_pairs_alone:
  assumes "r < length h"
  shows "fst (extract_pairs r fn flag h) = fst (extract_pairs 0 fn flag [h ! r])"
proof (cases "flag \<and> ''sequence'' \<in> set fn")
  case True
  then show ?thesis by (simp add: extract_pairs_def)
next
  case ok: False
  show ?thesis
  proof (cases "getitem ''user_name'' (h ! r)")
    case (Inl e)
    then show ?thesis unfolding extract_pairs_def if_not_P [OF ok] by simp
  next
    case names: (Inr names)
    show ?thesis
    proof (cases "pd_unique names")
      case (Inl e)
      with names show ?thesis unfolding extract_pairs_def if_not_P [OF ok] by simp
    next
      case (Inr us)
      from names have names': "getitem ''user_name'' ([h ! r] ! 0) = Inr names" by simp
      have "0 < length [h ! r]" by simp
      from extract_pairs_value(1) [OF assms names Inr ok]
        extract_pairs_value(1) [OF this names' Inr ok, unfolded nth_Cons_0]
      show ?thesis by simp
    qed
  qed
qed

section \<open>Rows and labels of written and joined frames\<close>

lemma drop_cells_append:
  "length r1 = length cs1 \<Longrightarrow>
   drop_cells n (cs1 @ cs2) (r1 @ r2) = drop_cells n cs1 r1 @ drop_cells n cs2 r2"
  by (simp add: drop_cells_def)

lemma drop_cells_notin:
  assumes "n \<notin> set cs" and "length r = length cs"
  shows "drop_cells n cs r = r"
proof -
  have "filter (\<lambda>(c, x). c \<noteq> n) (zip cs r) = zip cs r"
    using assms(1) by (auto simp: filter_id_conv dest: set_zip_leftD)
  with assms(2) show ?thesis by (simp add: drop_cells_def)
qed

lemma drop_cells_single: "drop_cells n [c] [v] = (if c = n then [] else [v])"
  by (simp add: drop_cells_def)

lemma at_col_append_notin:
  "n \<notin> set cs \<Longrightarrow> length r = length cs \<Longrightarrow> at_col (cs @ cs2) (r @ r2) n = at_col cs2 r2 n"
  by (simp add: at_col_def map_add_def map_of_zip_is_None [THEN iffD2] split: option.splits)

lemma at_col_Cons: "at_col (c # cs) (v # r) n = (if c = n then v else at_col cs r n)"
  by (simp add: at_col_def)

lemma map2_replicate: "map2 f xs (replicate (length xs) v) = map (\<lambda>x. f x v) xs"
  by (induction xs) simp_all

lemma map2_map_upt:
  "map2 f xs (map g [0..<length xs]) = map (\<lambda>i. f (xs ! i) (g i)) [0..<length xs]"
  by (rule nth_equalityI) simp_all

lemma overwrite_other:
  "length r = length cs \<Longrightarrow> name \<notin> set cs \<Longrightarrow>
   map2 (\<lambda>c x. if c = name then v else x) cs r = r"
  by (induction r cs rule: list_induct2) auto

lemma overwrite_last:
  assumes "name \<notin> set cs" and "length r = length cs"
  shows "map2 (\<lambda>c x. if c = name then v else x) (cs @ [name]) (r @ [w]) = r @ [v]"
  using assms by (simp add: overwrite_other)

lemma setitem_scalar_new:
  "name \<notin> set (columns f) \<Longrightarrow>
   setitem_scalar name v f = \<lparr>columns = columns f @ [name], rows = map (\<lambda>r. r @ [v]) (rows f)\<rparr>"
  by (simp add: setitem_scalar_def setitem_def map2_replicate)

lemma setitem_scalar_again:
  assumes "name \<notin> set cs" and "\<forall>r \<in> set rs. length r = length cs"
  shows "setitem_scalar name v \<lparr>columns = cs @ [name], rows = map (\<lambda>r. r @ [w]) rs\<rparr> =
    \<lparr>columns = cs @ [name], rows = map (\<lambda>r. r @ [v]) rs\<rparr>"
proof -
  let ?ow = "\<lambda>r v. map2 (\<lambda>c x. if c = name then v else x) (cs @ [name]) r"
  have "map2 ?ow (map (\<lambda>r. r @ [w]) rs) (replicate (length (map (\<lambda>r. r @ [w]) rs)) v) =
      map (\<lambda>r. ?ow r v) (map (\<lambda>r. r @ [w]) rs)"
    by (rule map2_replicate)
  also have "\<dots> = map (\<lambda>r. ?ow (r @ [w]) v) rs" by (simp add: comp_def)
  also have "\<dots> = map (\<lambda>r. r @ [v]) rs"
    using assms by (intro map_cong refl overwrite_last) auto
  finally show ?thesis by (simp add: setitem_scalar_def setitem_def)
qed

lemma setitem_range_new:
  "name \<notin> set (columns f) \<Longrightarrow>
   setitem_range name f =
     \<lparr>columns = columns f @ [name],
      rows = map (\<lambda>i. rows f ! i @ [Num (Fin (int i))]) [0..<length (rows f)]\<rparr>"
  by (simp add: setitem_range_def setitem_def map2_map_upt)

lemma setitem_range_again:
  assumes "name \<notin> set cs" and "\<forall>i < n. length (g i) = length cs"
  shows "setitem_range name \<lparr>columns = cs @ [name], rows = map (\<lambda>i. g i @ [w i]) [0..<n]\<rparr> =
    \<lparr>columns = cs @ [name], rows = map (\<lambda>i. g i @ [Num (Fin (int i))]) [0..<n]\<rparr>"
proof -
  let ?rs = "map (\<lambda>i. g i @ [w i]) [0..<n]"
  let ?ow = "\<lambda>r v. map2 (\<lambda>c x. if c = name then v else x) (cs @ [name]) r"
  have n: "length ?rs = n" by simp
  have "map2 ?ow ?rs (map (\<lambda>i. Num (Fin (int i))) [0..<length ?rs]) =
      map (\<lambda>i. ?ow (?rs ! i) (Num (Fin (int i)))) [0..<length ?rs]"
    by (rule map2_map_upt)
  also have "\<dots> = map (\<lambda>i. ?ow (g i @ [w i]) (Num (Fin (int i)))) [0..<n]"
    unfolding n by (rule map_cong) simp_all
  also have "\<dots> = map (\<lambda>i. g i @ [Num (Fin (int i))]) [0..<n]"
    using assms by (intro map_cong refl overwrite_last) auto
  finally show ?thesis unfolding n by (simp add: setitem_range_def setitem_def)
qed

lemma suffix_neq_tmp:
  "c @ ''_A'' \<noteq> tmp_cart_prod_colname" "c @ ''_B'' \<noteq> tmp_cart_prod_colname"
  "tmp_cart_prod_colname \<noteq> c @ ''_A''" "tmp_cart_prod_colname \<noteq> c @ ''_B''"
  by (auto simp: tmp_cart_prod_colname_def dest!: arg_cong [where f = rev])

lemma suffix_A_neq_B: "c @ ''_A'' \<noteq> d @ ''_B''" "c @ ''_B'' \<noteq> d @ ''_A''"
  by (auto dest!: arg_cong [where f = rev])

lemma tmp_neq_row_number:
  "tmp_cart_prod_colname \<noteq> tmp_row_number_colname"
  "tmp_row_number_colname \<noteq> tmp_cart_prod_colname"
  by (simp_all add: tmp_cart_prod_colname_def tmp_row_number_colname_def)

lemma filter_snd_zip: "map snd (filter fst (zip (map g xs) xs)) = filter g xs"
  by (induction xs) simp_all

lemma map2_same: "map2 h (map f xs) (map g xs) = map (\<lambda>x. h (f x) (g x)) xs"
  by (induction xs) simp_all

lemma pd_merge_written:
  assumes key: "key \<notin> set cs" "key \<notin> set xs"
    and L: "\<forall>u \<in> set us. length (pL u) = length cs \<and> length (eL u) = length xs"
    and R: "\<forall>v \<in> set vs. length (pR v) = length cs \<and> length (eR v) = length xs"
    and sfx: "sa \<noteq> [] \<or> sb \<noteq> []"
  shows "pd_merge \<lparr>columns = cs @ [key] @ xs, rows = map (\<lambda>u. pL u @ [k] @ eL u) us\<rparr>
           \<lparr>columns = cs @ [key] @ xs, rows = map (\<lambda>v. pR v @ [k] @ eR v) vs\<rparr> key (sa, sb) =
         Inr \<lparr>columns = map (\<lambda>c. c @ sa) cs @ [key] @ map (\<lambda>c. c @ sa) xs @
                         map (\<lambda>c. c @ sb) cs @ map (\<lambda>c. c @ sb) xs,
               rows = map (\<lambda>(u, v). pL u @ [k] @ eL u @ pR v @ eR v) (List.product us vs)\<rparr>"
proof -
  let ?cols = "cs @ [key] @ xs"
  have atL: "at_col ?cols (pL u @ [k] @ eL u) key = k" if "u \<in> set us" for u
    using that key L by (simp add: at_col_append_notin at_col_Cons)
  have atR: "at_col ?cols (pR v @ [k] @ eR v) key = k" if "v \<in> set vs" for v
    using that key R by (simp add: at_col_append_notin at_col_Cons)
  have dropR: "drop_cells key ?cols (pR v @ [k] @ eR v) = pR v @ eR v" if "v \<in> set vs" for v
    using that key R
    by (simp add: drop_cells_append drop_cells_notin drop_cells_single
        drop_cells_append [of "[k]" "[key]", simplified])
  have inner: "map (\<lambda>r. (pL u @ [k] @ eL u) @ drop_cells key ?cols r)
        (filter (\<lambda>r. at_col ?cols (pL u @ [k] @ eL u) key = at_col ?cols r key)
          (map (\<lambda>v. pR v @ [k] @ eR v) vs)) =
      map (\<lambda>v. pL u @ [k] @ eL u @ pR v @ eR v) vs" if u: "u \<in> set us" for u
  proof -
    have "filter (\<lambda>r. at_col ?cols (pL u @ [k] @ eL u) key = at_col ?cols r key)
          (map (\<lambda>v. pR v @ [k] @ eR v) vs) = map (\<lambda>v. pR v @ [k] @ eR v) vs"
      using atL [OF u] atR by (simp add: filter_id_conv)
    then show ?thesis using dropR by (simp add: comp_def cong: map_cong)
  qed
  have rows: "concat (map (\<lambda>l. map (\<lambda>r. l @ drop_cells key ?cols r)
        (filter (\<lambda>r. at_col ?cols l key = at_col ?cols r key) (map (\<lambda>v. pR v @ [k] @ eR v) vs)))
        (map (\<lambda>u. pL u @ [k] @ eL u) us)) =
      map (\<lambda>(u, v). pL u @ [k] @ eL u @ pR v @ eR v) (List.product us vs)"
    using inner by (simp add: product_concat_map comp_def map_concat cong: map_cong)
  have cols: "map (\<lambda>c. if c \<noteq> key \<and> c \<in> set ?cols then c @ sa else c) ?cols @
      map (\<lambda>c. if c \<in> set ?cols then c @ sb else c) (filter (\<lambda>c. c \<noteq> key) ?cols) =
      map (\<lambda>c. c @ sa) cs @ [key] @ map (\<lambda>c. c @ sa) xs @
        map (\<lambda>c. c @ sb) cs @ map (\<lambda>c. c @ sb) xs"
  proof -
    have f: "filter (\<lambda>c. c \<noteq> key) cs = cs" "filter (\<lambda>c. c \<noteq> key) xs = xs"
      using key by (auto simp: filter_id_conv)
    show ?thesis using key by (simp add: f cong: map_cong)
  qed
  have mem: "key \<in> set ?cols \<and> key \<in> set ?cols" by simp
  have nov: "\<not> (sa = [] \<and> sb = [] \<and> list_ex (\<lambda>c. c \<noteq> key \<and> c \<in> set ?cols) ?cols)"
    using sfx by blast
  show ?thesis
    by (simp only: pd_merge_def frame.select_convs fst_conv snd_conv if_P [OF mem]
        if_not_P [OF nov] rows cols)
qed

lemma filter_neq_notin: "n \<notin> set xs \<Longrightarrow> filter (\<lambda>c. c \<noteq> n) xs = xs"
  by (induction xs) auto

lemma filter_snd_zip_map:
  "map snd (filter fst (zip (map g xs) (map F xs))) = map F (filter g xs)"
  by (induction xs) simp_all

lemma drop_column_mid:
  assumes "key \<notin> set c1" and "key \<notin> set c2"
    and "\<forall>z \<in> set zs. length (a z) = length c1 \<and> length (b z) = length c2"
  shows "drop_column key \<lparr>columns = c1 @ key # c2, rows = map (\<lambda>z. a z @ k z # b z) zs\<rparr> =
    Inr \<lparr>columns = c1 @ c2, rows = map (\<lambda>z. a z @ b z) zs\<rparr>"
proof -
  have "drop_cells key (c1 @ key # c2) (a z @ k z # b z) = a z @ b z" if "z \<in> set zs" for z
    using that assms
    by (simp add: drop_cells_append drop_cells_notin
        drop_cells_append [of "[k z]" "[key]", simplified] drop_cells_single)
  moreover have "filter (\<lambda>c. c \<noteq> key) (c1 @ key # c2) = c1 @ c2"
    using assms(1,2) by (simp add: filter_neq_notin)
  ultimately show ?thesis
    by (simp add: drop_column_def cong: map_cong)
qed

lemma getitem_mid:
  assumes "key \<notin> set c1" and "\<forall>z \<in> set zs. length (a z) = length c1"
  shows "getitem key \<lparr>columns = c1 @ key # c2, rows = map (\<lambda>z. a z @ k z # b z) zs\<rparr> =
    Inr (map k zs)"
  using assms by (simp add: getitem_def at_col_append_notin at_col_Cons cong: map_cong)

lemma cartesian_product_join_cross:
  assumes tmp: "tmp_cart_prod_colname \<notin> set cs"
    and ra: "\<forall>r \<in> set ra. length r = length cs"
    and rb: "\<forall>r \<in> set rb. length r = length cs"
  shows "cartesian_product_join
      \<lparr>columns = cs @ [tmp_cart_prod_colname], rows = map (\<lambda>r. r @ [Num (Fin 0)]) ra\<rparr>
      \<lparr>columns = cs @ [tmp_cart_prod_colname], rows = map (\<lambda>r. r @ [Num (Fin 0)]) rb\<rparr>
      False default_suffixes =
    Inr \<lparr>columns = map (\<lambda>c. c @ ''_A'') cs @ map (\<lambda>c. c @ ''_B'') cs,
          rows = map (\<lambda>(a, b). a @ b) (List.product ra rb)\<rparr>"
proof -
  let ?T = tmp_cart_prod_colname
  let ?Z = "Num (Fin 0)"
  let ?zs = "List.product ra rb"
  have merged: "pd_merge \<lparr>columns = cs @ [?T], rows = map (\<lambda>r. r @ [?Z]) ra\<rparr>
      \<lparr>columns = cs @ [?T], rows = map (\<lambda>r. r @ [?Z]) rb\<rparr> ?T (''_A'', ''_B'') =
    Inr \<lparr>columns = map (\<lambda>c. c @ ''_A'') cs @ ?T # map (\<lambda>c. c @ ''_B'') cs,
          rows = map (\<lambda>z. fst z @ ?Z # snd z) ?zs\<rparr>"
    using pd_merge_written [of ?T cs "[]" ra "\<lambda>r. r" "\<lambda>r. []" rb "\<lambda>r. r" "\<lambda>r. []" "''_A''" "''_B''" ?Z]
      tmp ra rb
    by (simp add: case_prod_unfold)
  have dropped: "drop_column ?T
      \<lparr>columns = map (\<lambda>c. c @ ''_A'') cs @ ?T # map (\<lambda>c. c @ ''_B'') cs,
       rows = map (\<lambda>z. fst z @ ?Z # snd z) ?zs\<rparr> =
    Inr \<lparr>columns = map (\<lambda>c. c @ ''_A'') cs @ map (\<lambda>c. c @ ''_B'') cs,
          rows = map (\<lambda>z. fst z @ snd z) ?zs\<rparr>"
    using ra rb
    by (intro drop_column_mid) (auto simp: suffix_neq_tmp)
  show ?thesis
    by (simp add: cartesian_product_join_def default_suffixes_def merged dropped case_prod_unfold)
qed

lemma cartesian_product_join_within:
  assumes tmp: "tmp_cart_prod_colname \<notin> set cs"
    and rn: "tmp_row_number_colname \<notin> set cs"
    and rs: "\<forall>r \<in> set rs. length r = length cs"
  shows "cartesian_product_join
      \<lparr>columns = cs @ [tmp_cart_prod_colname, tmp_row_number_colname],
       rows = map (\<lambda>i. rs ! i @ [Num (Fin 0), Num (Fin (int i))]) [0..<length rs]\<rparr>
      \<lparr>columns = cs @ [tmp_cart_prod_colname, tmp_row_number_colname],
       rows = map (\<lambda>i. rs ! i @ [Num (Fin 0), Num (Fin (int i))]) [0..<length rs]\<rparr>
      True default_suffixes =
    Inr \<lparr>columns = map (\<lambda>c. c @ ''_A'') cs @ map (\<lambda>c. c @ ''_B'') cs,
          rows = map (\<lambda>(p, q). rs ! p @ rs ! q)
                   (filter (\<lambda>(p, q). q < p) (List.product [0..<length rs] [0..<length rs]))\<rparr>"
proof -
  let ?T = tmp_cart_prod_colname
  let ?N = tmp_row_number_colname
  let ?Z = "Num (Fin 0)"
  let ?n = "length rs"
  let ?zs = "List.product [0..<?n] [0..<?n]"
  let ?I = "\<lambda>i. Num (Fin (int i))"
  let ?W = "\<lparr>columns = cs @ [?T, ?N], rows = map (\<lambda>i. rs ! i @ [?Z, ?I i]) [0..<?n]\<rparr>"
  let ?A = "map (\<lambda>c. c @ ''_A'') cs"
  let ?B = "map (\<lambda>c. c @ ''_B'') cs"
  have len: "length (rs ! i) = length cs" if "i < ?n" for i
    using that rs by simp
  have NA: "?N @ ''_A'' \<notin> set ?A" "?N @ ''_A'' \<notin> set ?B" "?N @ ''_A'' \<noteq> ?N @ ''_B''"
    and NB: "?N @ ''_B'' \<notin> set ?A" "?N @ ''_B'' \<notin> set ?B"
    and TN: "?T \<noteq> ?N @ ''_A''" "?T \<noteq> ?N @ ''_B''"
    using rn suffix_A_neq_B suffix_neq_tmp by auto
  have merged: "pd_merge ?W ?W ?T (''_A'', ''_B'') =
    Inr \<lparr>columns = ?A @ ?T # (?N @ ''_A'') # ?B @ [?N @ ''_B''],
          rows = map (\<lambda>z. rs ! fst z @ ?Z # ?I (fst z) # rs ! snd z @ [?I (snd z)]) ?zs\<rparr>"
    using pd_merge_written [of ?T cs "[?N]" "[0..<?n]" "\<lambda>i. rs ! i" "\<lambda>i. [?I i]"
        "[0..<?n]" "\<lambda>i. rs ! i" "\<lambda>i. [?I i]" "''_A''" "''_B''" ?Z]
      tmp len tmp_neq_row_number
    by (simp add: case_prod_unfold)
  have dropped: "drop_column ?T
      \<lparr>columns = ?A @ ?T # (?N @ ''_A'') # ?B @ [?N @ ''_B''],
       rows = map (\<lambda>z. rs ! fst z @ ?Z # ?I (fst z) # rs ! snd z @ [?I (snd z)]) ?zs\<rparr> =
    Inr \<lparr>columns = ?A @ (?N @ ''_A'') # ?B @ [?N @ ''_B''],
          rows = map (\<lambda>z. rs ! fst z @ ?I (fst z) # rs ! snd z @ [?I (snd z)]) ?zs\<rparr>"
    (is "_ = Inr ?D")
    using len TN
    by (intro drop_column_mid) (auto simp: suffix_neq_tmp)
  have numbers_A: "getitem (?N @ ''_A'') ?D = Inr (map (\<lambda>z. ?I (fst z)) ?zs)"
    using len NA by (intro getitem_mid) auto
  have numbers_B: "getitem (?N @ ''_B'') ?D = Inr (map (\<lambda>z. ?I (snd z)) ?zs)"
    using getitem_mid [of "?N @ ''_B''" "?A @ (?N @ ''_A'') # ?B" ?zs
        "\<lambda>z. rs ! fst z @ ?I (fst z) # rs ! snd z" "[]" "\<lambda>z. ?I (snd z)" "\<lambda>z. []"]
      len NA NB
    by auto
  let ?ks = "filter (\<lambda>z. snd z < fst z) ?zs"
  have kept: "map snd (filter fst
        (zip (map2 cell_gt (map (\<lambda>z. ?I (fst z)) ?zs) (map (\<lambda>z. ?I (snd z)) ?zs))
          (map (\<lambda>z. rs ! fst z @ ?I (fst z) # rs ! snd z @ [?I (snd z)]) ?zs))) =
      map (\<lambda>z. rs ! fst z @ ?I (fst z) # rs ! snd z @ [?I (snd z)]) ?ks"
    by (simp add: map2_same filter_snd_zip_map)
  have drop_A: "drop_column (?N @ ''_A'')
      \<lparr>columns = ?A @ (?N @ ''_A'') # ?B @ [?N @ ''_B''],
       rows = map (\<lambda>z. rs ! fst z @ ?I (fst z) # rs ! snd z @ [?I (snd z)]) ?ks\<rparr> =
    Inr \<lparr>columns = ?A @ ?B @ [?N @ ''_B''],
          rows = map (\<lambda>z. rs ! fst z @ rs ! snd z @ [?I (snd z)]) ?ks\<rparr>"
    using len NA
    by (intro drop_column_mid) auto
  have drop_B: "drop_column (?N @ ''_B'')
      \<lparr>columns = ?A @ ?B @ [?N @ ''_B''],
       rows = map (\<lambda>z. rs ! fst z @ rs ! snd z @ [?I (snd z)]) ?ks\<rparr> =
    Inr \<lparr>columns = ?A @ ?B, rows = map (\<lambda>z. rs ! fst z @ rs ! snd z) ?ks\<rparr>"
    using drop_column_mid [of "?N @ ''_B''" "?A @ ?B" "[]" ?ks
        "\<lambda>z. rs ! fst z @ rs ! snd z" "\<lambda>z. []" "\<lambda>z. ?I (snd z)"]
      len NB
    by auto
  have "cartesian_product_join ?W ?W True default_suffixes =
      Inr \<lparr>columns = ?A @ ?B, rows = map (\<lambda>z. rs ! fst z @ rs ! snd z) ?ks\<rparr>"
    unfolding cartesian_product_join_def default_suffixes_def
    by (simp add: merged dropped numbers_A numbers_B kept drop_A drop_B Let_def)
  then show ?thesis by (simp add: case_prod_unfold)
qed

lemma written_cross:
  assumes "tmp_cart_prod_colname \<notin> set (columns G)"
  shows "setitem_scalar tmp_cart_prod_colname (Num (Fin 0)) G =
    \<lparr>columns = columns G @ [tmp_cart_prod_colname],
     rows = map (\<lambda>r. r @ [Num (Fin 0)]) (rows G)\<rparr>"
  using assms by (rule setitem_scalar_new)

lemma written_within:
  assumes rect: "rectangular G"
    and tmp: "tmp_cart_prod_colname \<notin> set (columns G)"
    and rn: "tmp_row_number_colname \<notin> set (columns G)"
  shows "setitem_range tmp_row_number_colname (setitem_range tmp_row_number_colname
      (setitem_scalar tmp_cart_prod_colname (Num (Fin 0))
        (setitem_scalar tmp_cart_prod_colname (Num (Fin 0)) G))) =
    \<lparr>columns = columns G @ [tmp_cart_prod_colname, tmp_row_number_colname],
     rows = map (\<lambda>i. rows G ! i @ [Num (Fin 0), Num (Fin (int i))]) [0..<length (rows G)]\<rparr>"
proof -
  let ?T = tmp_cart_prod_colname
  let ?N = tmp_row_number_colname
  let ?Z = "Num (Fin 0)"
  let ?S = "\<lparr>columns = columns G @ [?T], rows = map (\<lambda>r. r @ [?Z]) (rows G)\<rparr>"
  from rect have len: "\<forall>r \<in> set (rows G). length r = length (columns G)"
    by (simp add: rectangular_def)
  have 1: "setitem_scalar ?T ?Z G = ?S" using tmp by (rule setitem_scalar_new)
  have 2: "setitem_scalar ?T ?Z ?S = ?S" using tmp len by (rule setitem_scalar_again)
  have "setitem_range ?N ?S =
      \<lparr>columns = (columns G @ [?T]) @ [?N],
       rows = map (\<lambda>i. map (\<lambda>r. r @ [?Z]) (rows G) ! i @ [Num (Fin (int i))])
                [0..<length (rows G)]\<rparr>"
    using setitem_range_new [of ?N ?S] rn tmp_neq_row_number by simp
  also have "map (\<lambda>i. map (\<lambda>r. r @ [?Z]) (rows G) ! i @ [Num (Fin (int i))]) [0..<length (rows G)] =
      map (\<lambda>i. (rows G ! i @ [?Z]) @ [Num (Fin (int i))]) [0..<length (rows G)]"
    by (rule map_cong) simp_all
  finally have 3: "setitem_range ?N ?S =
      \<lparr>columns = (columns G @ [?T]) @ [?N],
       rows = map (\<lambda>i. (rows G ! i @ [?Z]) @ [Num (Fin (int i))]) [0..<length (rows G)]\<rparr>"
    (is "_ = ?R") .
  have 4: "setitem_range ?N ?R = ?R"
    using rn tmp_neq_row_number len
    by (intro setitem_range_again) auto
  show ?thesis unfolding 1 2 3 4 by simp
qed

lemma get_pair_data_concat_within:
  assumes a: "a < length h"
    and rect: "rectangular (h ! a)"
    and tmp: "tmp_cart_prod_colname \<notin> set (columns (h ! a))"
    and rn: "tmp_row_number_colname \<notin> set (columns (h ! a))"
  shows "get_pair_data False a None h =
    (Inr \<lparr>columns = map (\<lambda>c. c @ ''_A'') (columns (h ! a)) @ map (\<lambda>c. c @ ''_B'') (columns (h ! a)),
           rows = map (\<lambda>(p, q). rows (h ! a) ! p @ rows (h ! a) ! q)
                    (filter (\<lambda>(p, q). q < p)
                       (List.product [0..<length (rows (h ! a))] [0..<length (rows (h ! a))]))\<rparr>,
     h[a := \<lparr>columns = columns (h ! a) @ [tmp_cart_prod_colname, tmp_row_number_colname],
             rows = map (\<lambda>i. rows (h ! a) ! i @ [Num (Fin 0), Num (Fin (int i))])
                      [0..<length (rows (h ! a))]\<rparr>])"
proof -
  have w: "cartesian_product_writes a a True h =
      h[a := \<lparr>columns = columns (h ! a) @ [tmp_cart_prod_colname, tmp_row_number_colname],
             rows = map (\<lambda>i. rows (h ! a) ! i @ [Num (Fin 0), Num (Fin (int i))])
                      [0..<length (rows (h ! a))]\<rparr>]"
    using a written_within [OF rect tmp rn]
    by (simp add: cartesian_product_writes_def Let_def)
  from rect have len: "\<forall>r \<in> set (rows (h ! a)). length r = length (columns (h ! a))"
    by (simp add: rectangular_def)
  show ?thesis
    using a cartesian_product_join_within [OF tmp rn len]
    by (simp add: get_pair_data_def cartesian_product_def w)
qed

lemma get_pair_data_concat_cross:
  assumes a: "a < length h" and b: "b < length h" and ab: "a \<noteq> b"
    and rect: "rectangular (h ! a)" "rectangular (h ! b)"
    and cols: "columns (h ! b) = columns (h ! a)"
    and tmp: "tmp_cart_prod_colname \<notin> set (columns (h ! a))"
  shows "get_pair_data False a (Some b) h =
    (Inr \<lparr>columns = map (\<lambda>c. c @ ''_A'') (columns (h ! a)) @ map (\<lambda>c. c @ ''_B'') (columns (h ! a)),
           rows = map (\<lambda>(ra, rb). ra @ rb) (List.product (rows (h ! a)) (rows (h ! b)))\<rparr>,
     h[a := \<lparr>columns = columns (h ! a) @ [tmp_cart_prod_colname],
             rows = map (\<lambda>r. r @ [Num (Fin 0)]) (rows (h ! a))\<rparr>,
       b := \<lparr>columns = columns (h ! a) @ [tmp_cart_prod_colname],
             rows = map (\<lambda>r. r @ [Num (Fin 0)]) (rows (h ! b))\<rparr>])"
proof -
  have w: "cartesian_product_writes a b False h =
      h[a := \<lparr>columns = columns (h ! a) @ [tmp_cart_prod_colname],
             rows = map (\<lambda>r. r @ [Num (Fin 0)]) (rows (h ! a))\<rparr>,
        b := \<lparr>columns = columns (h ! a) @ [tmp_cart_prod_colname],
             rows = map (\<lambda>r. r @ [Num (Fin 0)]) (rows (h ! b))\<rparr>]"
    using a b ab written_cross [of "h ! a"] written_cross [of "h ! b"] tmp cols
    by (simp add: cartesian_product_writes_def Let_def)
  from rect cols have len: "\<forall>r \<in> set (rows (h ! a)). length r = length (columns (h ! a))"
    "\<forall>r \<in> set (rows (h ! b)). length r = length (columns (h ! a))"
    by (simp_all add: rectangular_def)
  show ?thesis
    using a b ab cartesian_product_join_cross [OF tmp len]
    by (simp add: get_pair_data_def cartesian_product_def w)
qed

section \<open>The row pairs of concat mode within a group\<close>

text \<open>
  Claim C4, as stated, fails: on a group of two rows the one row that concat mode
  keeps holds row 1 as A and row 0 as B, which is the pair with \<open>index_A > index_B\<close>,
  not the one with \<open>index_A < index_B\<close>.
\<close>

theorem concat_within_keeps_A_greater_on_two_rows:
  "fst (get_pair_data False 0 None [group_2]) =
     Inr \<lparr>columns = [''f_A'', ''g_A'', ''f_B'', ''g_B''],
          rows = [[Num (Fin 4), Num (Fin 7), Num (Fin 1), Num (Fin 5)]]\<rparr> \<and>
   concat_pair_rows group_2 (index_pairs_A_less 2) =
     [[Num (Fin 1), Num (Fin 5), Num (Fin 4), Num (Fin 7)]] \<and>
   concat_pair_rows group_2 (index_pairs_A_greater 2) =
     [[Num (Fin 4), Num (Fin 7), Num (Fin 1), Num (Fin 5)]]"
  by code_simp

text \<open>
  Claim C4, amended. In concat mode with \<open>withinGroup\<close> true, the engine uses the
  synthetic row number to keep exactly the rows of the cross join with
  \<open>index_A > index_B\<close>, in the order of the join, and drops all other rows (the
  filter of the source is \<^verbatim>\<open>row_number_A > row_number_B\<close>). The group is a
  rectangular frame none of whose labels is one of the two temporary labels.
\<close>

theorem concat_within_keeps_A_greater:
  assumes "a < length h"
    and "rectangular (h ! a)"
    and "tmp_cart_prod_colname \<notin> set (columns (h ! a))"
    and "tmp_row_number_colname \<notin> set (columns (h ! a))"
  shows "fst (get_pair_data False a None h) =
    Inr \<lparr>columns = pair_schema False (columns (h ! a)),
         rows = concat_pair_rows (h ! a) (index_pairs_A_greater (length (rows (h ! a))))\<rparr>"
  using get_pair_data_concat_within [OF assms]
  by (simp add: pair_schema_def concat_pair_rows_def index_pairs_A_greater_def
      cross_join_index_pairs_def)

theorem concat_within_keeps_A_greater_witness:
  "(0::nat) < length [group_3] \<and> rectangular ([group_3] ! 0) \<and>
   tmp_cart_prod_colname \<notin> set (columns ([group_3] ! 0)) \<and>
   tmp_row_number_colname \<notin> set (columns ([group_3] ! 0)) \<and>
   fst (get_pair_data False 0 None [group_3]) =
     Inr \<lparr>columns = pair_schema False (columns ([group_3] ! 0)),
          rows = concat_pair_rows ([group_3] ! 0)
                   (index_pairs_A_greater (length (rows ([group_3] ! 0))))\<rparr>"
proof -
  have 1: "(0::nat) < length [group_3]" by simp
  have 2: "rectangular ([group_3] ! 0)" by code_simp
  have 3: "tmp_cart_prod_colname \<notin> set (columns ([group_3] ! 0))" by code_simp
  have 4: "tmp_row_number_colname \<notin> set (columns ([group_3] ! 0))" by code_simp
  from concat_within_keeps_A_greater [OF 1 2 3 4] 1 2 3 4 show ?thesis by blast
qed

section \<open>The labels of the tables of one pass\<close>



lemma negative_body_value:
  "fst (negative_body r fn flag us ij h) =
     (case user_rows (h ! r) (us ! fst ij) fn of
        Inl e \<Rightarrow> Inl e
      | Inr A \<Rightarrow>
          (case user_rows (h ! r) (us ! snd ij) fn of
             Inl e \<Rightarrow> Inl e
           | Inr B \<Rightarrow> fst (get_pair_data flag 0 (Some 1) [A, B])))"
proof -
  have "fst (get_pair_data flag (length h) (Some (Suc (length h))) (h @ [A, B])) =
      fst (get_pair_data flag 0 (Some 1) [A, B])" for A B
    using get_pair_data_append [of flag h 0 "Some 1" "[A, B]"] by simp
  then show ?thesis
    by (simp add: negative_body_def Let_def alloc_def split: sum.splits)
qed

lemma positive_body_value:
  "fst (positive_body r fn flag u h) =
     (case user_rows (h ! r) u fn of
        Inl e \<Rightarrow> Inl e
      | Inr A \<Rightarrow> fst (get_pair_data flag 0 None [A]))"
proof -
  have "fst (get_pair_data flag (length h) None (h @ [A])) = fst (get_pair_data flag 0 None [A])"
    for A
    using get_pair_data_append [of flag h 0 None "[A]"] by simp
  then show ?thesis
    by (simp add: positive_body_def Let_def alloc_def split: sum.splits)
qed






lemma length_rows_setitem_scalar [simp]:
  "length (rows (setitem_scalar name v f)) = length (rows f)"
  by (simp add: setitem_scalar_def setitem_def)





section \<open>What a call leaves in the store\<close>




section \<open>Each unordered pair once\<close>

lemma set_index_pairs_A_greater:
  "set (index_pairs_A_greater n) = {(p, q). q < p \<and> p < n}"
  by (auto simp: index_pairs_A_greater_def cross_join_index_pairs_def)

lemma distinct_index_pairs_A_greater: "distinct (index_pairs_A_greater n)"
  by (simp add: index_pairs_A_greater_def cross_join_index_pairs_def distinct_product)

lemma pair_in_image_left: "(p, q) \<in> (\<lambda>a. (a, x)) ` S \<longleftrightarrow> q = x \<and> p \<in> S"
  by auto

lemma set_diff_within_index_pairs:
  "set (diff_within_index_pairs n) = {(p, q). q < p \<and> p < n}"
proof (rule set_eqI)
  fix x :: "nat \<times> nat"
  obtain p q where x: "x = (p, q)" by (cases x)
  have "(p, q) \<in> set (diff_within_index_pairs n) \<longleftrightarrow> q < n - 1 \<and> q + 1 \<le> p \<and> p < n"
    by (simp add: diff_within_index_pairs_def pair_in_image_left)
  also have "\<dots> \<longleftrightarrow> q < p \<and> p < n" by auto
  finally show "x \<in> set (diff_within_index_pairs n) \<longleftrightarrow> x \<in> {(p, q). q < p \<and> p < n}"
    by (simp add: x)
qed

lemma distinct_concat_map_disjoint:
  assumes "distinct xs"
    and "\<And>x. x \<in> set xs \<Longrightarrow> distinct (g x)"
    and "\<And>x y. x \<in> set xs \<Longrightarrow> y \<in> set xs \<Longrightarrow> x \<noteq> y \<Longrightarrow> set (g x) \<inter> set (g y) = {}"
  shows "distinct (concat (map g xs))"
  using assms
proof (induction xs)
  case Nil
  then show ?case by simp
next
  case (Cons x xs)
  have "set (g x) \<inter> set (g y) = {}" if "y \<in> set xs" for y
    using Cons.prems(1) that by (intro Cons.prems(3)) auto
  then have "set (g x) \<inter> \<Union> (set ` g ` set xs) = {}" by blast
  moreover have "distinct (concat (map g xs))"
    using Cons.prems by (intro Cons.IH) auto
  ultimately show ?case using Cons.prems(2) [of x] by simp
qed

lemma distinct_diff_within_index_pairs: "distinct (diff_within_index_pairs n)"
  unfolding diff_within_index_pairs_def
  by (rule distinct_concat_map_disjoint) (auto simp: distinct_map inj_on_def)

lemma card_strict_pairs: "card {(p, q). q < p \<and> p < (n::nat)} = n * (n - 1) div 2"
proof (induction n)
  case 0
  then show ?case by simp
next
  case (Suc n)
  have split: "{(p, q). q < p \<and> p < Suc n} = {(p, q). q < p \<and> p < n} \<union> (\<lambda>q. (n, q)) ` {..<n}"
    by (auto simp: less_Suc_eq)
  have fin: "finite {(p, q). q < p \<and> p < n}"
    by (rule finite_subset [of _ "{..<n} \<times> {..<n}"]) auto
  have "card {(p, q). q < p \<and> p < Suc n} = card {(p, q). q < p \<and> p < n} + card ((\<lambda>q. (n, q)) ` {..<n})"
    unfolding split using fin by (intro card_Un_disjoint) auto
  also have "card ((\<lambda>q. (n, q)) ` {..<n}) = n"
    by (simp add: card_image inj_on_def)
  finally show ?case using Suc.IH
    by (cases n) (simp_all add: algebra_simps)
qed

lemma each_pair_once_strict:
  assumes "distinct ps" and "set ps = {(p, q). q < p \<and> p < n}"
  shows "each_pair_once n ps"
proof -
  from assms distinct_card [of ps] have 1: "length ps = n * (n - 1) div 2"
    by (simp add: card_strict_pairs)
  have 2: "\<forall>(i, j) \<in> set ps. i < n \<and> j < n \<and> i \<noteq> j"
    unfolding assms(2) by auto
  have 3: "\<forall>i < n. \<forall>j < n. i \<noteq> j \<longrightarrow> ((i, j) \<in> set ps) \<noteq> ((j, i) \<in> set ps)"
    unfolding assms(2) by auto
  from assms(1) 1 2 3 show ?thesis
    unfolding each_pair_once_def by blast
qed

lemma each_pair_once_index_pairs_A_greater: "each_pair_once n (index_pairs_A_greater n)"
  by (rule each_pair_once_strict [OF distinct_index_pairs_A_greater set_index_pairs_A_greater])

lemma each_pair_once_diff_within_index_pairs: "each_pair_once n (diff_within_index_pairs n)"
  by (rule each_pair_once_strict [OF distinct_diff_within_index_pairs set_diff_within_index_pairs])

lemma mset_strict_halves: "mset (diff_within_index_pairs n) = mset (index_pairs_A_greater n)"
proof -
  have "set (diff_within_index_pairs n) = set (index_pairs_A_greater n)"
    by (simp only: set_diff_within_index_pairs set_index_pairs_A_greater)
  with set_eq_iff_mset_eq_distinct [OF distinct_diff_within_index_pairs
      distinct_index_pairs_A_greater, of n n]
  show ?thesis by blast
qed

section \<open>The rows of diff mode\<close>

lemma collect_Inr_nth:
  assumes "collect (map f xs) = Inr vs"
  shows "length vs = length xs" and "\<And>i. i < length xs \<Longrightarrow> f (xs ! i) = Inr (vs ! i)"
proof -
  from assms have m: "map f xs = map Inr vs" by (rule collect_Inr)
  then show len: "length vs = length xs" by (metis length_map)
  fix i assume "i < length xs"
  with m len show "f (xs ! i) = Inr (vs ! i)" by (metis nth_map)
qed

lemma collect_all_Inr:
  assumes "\<And>x. x \<in> set xs \<Longrightarrow> \<exists>v. f x = Inr v"
  shows "\<exists>vs. collect (map f xs) = Inr vs"
  using assms
proof (induction xs)
  case Nil
  then show ?case by simp
next
  case (Cons x xs)
  from Cons.prems [of x] obtain v where "f x = Inr v" by auto
  moreover from Cons.IH Cons.prems obtain vs where "collect (map f xs) = Inr vs" by auto
  ultimately show ?case by simp
qed

lemma broadcast_abs_diff_Inr:
  assumes "broadcast_abs_diff A B = Inr P"
  shows "length P = length (rows B)"
    and "\<And>j. j < length (rows B) \<Longrightarrow> length (P ! j) = length (rows A)"
    and "\<And>i j. j < length (rows B) \<Longrightarrow> i < length (rows A) \<Longrightarrow>
           np_broadcast cell_abs_diff (rows A ! i) (rows B ! j) = Inr (P ! j ! i)"
proof -
  from assms have c: "collect (map (\<lambda>b. collect (map (\<lambda>a. np_broadcast cell_abs_diff a b) (rows A)))
      (rows B)) = Inr P"
    by (simp add: broadcast_abs_diff_def split: if_splits)
  from collect_Inr_nth(1) [OF c] show "length P = length (rows B)" .
  fix j assume j: "j < length (rows B)"
  from collect_Inr_nth(2) [OF c j]
  have cj: "collect (map (\<lambda>a. np_broadcast cell_abs_diff a (rows B ! j)) (rows A)) = Inr (P ! j)" .
  from collect_Inr_nth(1) [OF cj] show "length (P ! j) = length (rows A)" .
  fix i assume "i < length (rows A)"
  from collect_Inr_nth(2) [OF cj this]
  show "np_broadcast cell_abs_diff (rows A ! i) (rows B ! j) = Inr (P ! j ! i)" .
qed

lemma drop_as_map_nth: "drop m xs = map (\<lambda>k. xs ! k) [m..<length xs]"
  by (rule nth_equalityI) simp_all

lemma abs_diff_within_rows:
  assumes "abs_diff_between_all_row_pairs A A True = Inr D"
  shows "columns D = columns A"
    and "2 \<le> length (rows A)"
    and "map Inr (rows D) =
      map (\<lambda>(index_A, index_B). np_broadcast cell_abs_diff (rows A ! index_A) (rows A ! index_B))
        (diff_within_index_pairs (length (rows A)))"
proof -
  let ?n = "length (rows A)"
  from assms obtain P where P: "broadcast_abs_diff A A = Inr P"
    by (cases "broadcast_abs_diff A A") (simp_all add: abs_diff_between_all_row_pairs_def)
  note lenP = broadcast_abs_diff_Inr(1) [OF P] and lenPj = broadcast_abs_diff_Inr(2) [OF P]
    and Pji = broadcast_abs_diff_Inr(3) [OF P]
  from assms P have n: "0 < ?n - 1"
    and D: "D = \<lparr>columns = columns A,
                   rows = concat (map (\<lambda>i. drop (i + 1) (P ! i)) [0..<?n - 1])\<rparr>"
    by (auto simp: abs_diff_between_all_row_pairs_def Let_def split: if_splits)
  from D show "columns D = columns A" by simp
  from n show "2 \<le> ?n" by simp
  have slice: "map Inr (drop (i + 1) (P ! i)) =
      map (\<lambda>k. np_broadcast cell_abs_diff (rows A ! k) (rows A ! i)) [i + 1..<?n]"
    if "i < ?n - 1" for i
  proof -
    from that have i: "i < ?n" by simp
    have "drop (i + 1) (P ! i) = map (\<lambda>k. P ! i ! k) [i + 1..<?n]"
      using drop_as_map_nth [of "i + 1" "P ! i"] lenPj [OF i] by simp
    then have "map Inr (drop (i + 1) (P ! i)) = map (\<lambda>k. Inr (P ! i ! k)) [i + 1..<?n]"
      by (simp add: comp_def)
    also have "\<dots> = map (\<lambda>k. np_broadcast cell_abs_diff (rows A ! k) (rows A ! i)) [i + 1..<?n]"
      using Pji [OF i] by (intro map_cong refl) simp
    finally show ?thesis .
  qed
  have "map Inr (rows D) = concat (map (\<lambda>i. map Inr (drop (i + 1) (P ! i))) [0..<?n - 1])"
    by (simp add: D map_concat comp_def)
  also have "\<dots> = concat (map (\<lambda>i. map (\<lambda>k. np_broadcast cell_abs_diff (rows A ! k) (rows A ! i))
      [i + 1..<?n]) [0..<?n - 1])"
    using slice by (intro arg_cong [where f = concat] map_cong refl) simp
  also have "\<dots> = map (\<lambda>(k, i). np_broadcast cell_abs_diff (rows A ! k) (rows A ! i))
      (diff_within_index_pairs ?n)"
    by (simp add: diff_within_index_pairs_def map_concat comp_def)
  finally show "map Inr (rows D) =
      map (\<lambda>(index_A, index_B). np_broadcast cell_abs_diff (rows A ! index_A) (rows A ! index_B))
        (diff_within_index_pairs ?n)" .
qed

lemma abs_diff_cross_rows:
  assumes "abs_diff_between_all_row_pairs A B False = Inr D"
    and "length (columns B) = length (columns A)"
  shows "columns D = columns A"
    and "map Inr (rows D) =
      map (\<lambda>(b, a). np_broadcast cell_abs_diff a b) (List.product (rows B) (rows A))"
proof -
  from assms obtain P where P: "broadcast_abs_diff A B = Inr P"
    by (cases "broadcast_abs_diff A B") (simp_all add: abs_diff_between_all_row_pairs_def)
  from assms P have D: "D = \<lparr>columns = columns A, rows = concat P\<rparr>"
    by (auto simp: abs_diff_between_all_row_pairs_def Let_def split: if_splits)
  from D show "columns D = columns A" by simp
  from P have c: "collect (map (\<lambda>b. collect (map (\<lambda>a. np_broadcast cell_abs_diff a b) (rows A)))
      (rows B)) = Inr P"
    by (simp add: broadcast_abs_diff_def split: if_splits)
  have row: "map Inr (P ! j) = map (\<lambda>a. np_broadcast cell_abs_diff a (rows B ! j)) (rows A)"
    if "j < length (rows B)" for j
    using collect_Inr [OF collect_Inr_nth(2) [OF c that]] by simp
  have "map (map Inr) P = map (\<lambda>b. map (\<lambda>a. np_broadcast cell_abs_diff a b) (rows A)) (rows B)"
    using collect_Inr_nth(1) [OF c] row
    by (intro nth_equalityI) simp_all
  then have "map Inr (concat P) =
      concat (map (\<lambda>b. map (\<lambda>a. np_broadcast cell_abs_diff a b) (rows A)) (rows B))"
    by (simp add: map_concat)
  also have "\<dots> = map (\<lambda>(b, a). np_broadcast cell_abs_diff a b) (List.product (rows B) (rows A))"
    by (simp add: product_concat_map map_concat comp_def)
  finally show "map Inr (rows D) =
      map (\<lambda>(b, a). np_broadcast cell_abs_diff a b) (List.product (rows B) (rows A))"
    by (simp add: D)
qed

section \<open>The two modes on the same work item\<close>

lemma mset_concat_Cons:
  "mset (concat (map (\<lambda>y. g y # h y) ys)) = mset (map g ys) + mset (concat (map h ys))"
  by (induction ys) simp_all

lemma mset_product_swap:
  "mset (map (\<lambda>(a, b). f a b) (List.product xs ys)) =
   mset (map (\<lambda>(b, a). f a b) (List.product ys xs))"
proof (induction xs)
  case Nil
  show ?case by (induction ys) simp_all
next
  case (Cons x xs)
  have "mset (map (\<lambda>(b, a). f a b) (List.product ys (x # xs))) =
      mset (concat (map (\<lambda>y. f x y # map (\<lambda>a. f a y) xs) ys))"
    by (simp add: product_concat_map map_concat comp_def)
  also have "\<dots> = mset (map (f x) ys) + mset (concat (map (\<lambda>y. map (\<lambda>a. f a y) xs) ys))"
    by (rule mset_concat_Cons)
  also have "concat (map (\<lambda>y. map (\<lambda>a. f a y) xs) ys) =
      map (\<lambda>(b, a). f a b) (List.product ys xs)"
    by (simp add: product_concat_map map_concat comp_def)
  finally show ?case using Cons.IH by (simp add: comp_def)
qed

lemma block_abs_diff_append:
  "length a = F \<Longrightarrow> block_abs_diff F (a @ b) = np_broadcast cell_abs_diff a b"
  by (simp add: block_abs_diff_def)

lemma modes_correspond_within:
  assumes a: "a < length h"
    and rect: "rectangular (h ! a)"
    and tmp: "tmp_cart_prod_colname \<notin> set (columns (h ! a))"
    and rn: "tmp_row_number_colname \<notin> set (columns (h ! a))"
    and D: "fst (get_pair_data True a None h) = Inr D"
  shows "\<exists>C. fst (get_pair_data False a None h) = Inr C \<and>
    mset (map (block_abs_diff (length (columns (h ! a)))) (rows C)) = mset (map Inr (rows D))"
proof -
  let ?A = "h ! a"
  let ?n = "length (rows ?A)"
  let ?F = "length (columns ?A)"
  let ?g = "\<lambda>(p, q). np_broadcast cell_abs_diff (rows ?A ! p) (rows ?A ! q)"
  let ?C = "\<lparr>columns = pair_schema False (columns ?A),
             rows = concat_pair_rows ?A (index_pairs_A_greater ?n)\<rparr>"
  from get_pair_data_concat_within [OF a rect tmp rn]
  have C: "fst (get_pair_data False a None h) = Inr ?C"
    by (simp add: pair_schema_def concat_pair_rows_def index_pairs_A_greater_def
        cross_join_index_pairs_def)
  from D have "abs_diff_between_all_row_pairs ?A ?A True = Inr D"
    by (simp add: get_pair_data_def)
  from abs_diff_within_rows(3) [OF this]
  have d: "map Inr (rows D) = map ?g (diff_within_index_pairs ?n)" .
  have len: "length (rows ?A ! p) = ?F" if "p < ?n" for p
    using rect that by (simp add: rectangular_def)
  have "map (block_abs_diff ?F) (rows ?C) =
      map (\<lambda>z. block_abs_diff ?F (rows ?A ! fst z @ rows ?A ! snd z)) (index_pairs_A_greater ?n)"
    by (simp add: concat_pair_rows_def comp_def case_prod_unfold)
  also have "\<dots> = map (\<lambda>z. np_broadcast cell_abs_diff (rows ?A ! fst z) (rows ?A ! snd z))
      (index_pairs_A_greater ?n)"
    using len by (intro map_cong refl block_abs_diff_append)
      (auto simp: set_index_pairs_A_greater)
  finally have c: "map (block_abs_diff ?F) (rows ?C) = map ?g (index_pairs_A_greater ?n)"
    by (simp add: case_prod_unfold)
  have "mset (map ?g (index_pairs_A_greater ?n)) = mset (map ?g (diff_within_index_pairs ?n))"
    by (simp only: mset_map mset_strict_halves)
  with c d have "mset (map (block_abs_diff ?F) (rows ?C)) = mset (map Inr (rows D))"
    by simp
  with C show ?thesis by blast
qed

lemma modes_correspond_cross:
  assumes a: "a < length h" and b: "b < length h" and ab: "a \<noteq> b"
    and rect: "rectangular (h ! a)" "rectangular (h ! b)"
    and cols: "columns (h ! b) = columns (h ! a)"
    and tmp: "tmp_cart_prod_colname \<notin> set (columns (h ! a))"
    and D: "fst (get_pair_data True a (Some b) h) = Inr D"
  shows "\<exists>C. fst (get_pair_data False a (Some b) h) = Inr C \<and>
    mset (map (block_abs_diff (length (columns (h ! a)))) (rows C)) = mset (map Inr (rows D))"
proof -
  let ?A = "h ! a" and ?B = "h ! b"
  let ?F = "length (columns ?A)"
  let ?C = "\<lparr>columns = map (\<lambda>c. c @ ''_A'') (columns ?A) @ map (\<lambda>c. c @ ''_B'') (columns ?A),
             rows = map (\<lambda>(ra, rb). ra @ rb) (List.product (rows ?A) (rows ?B))\<rparr>"
  from get_pair_data_concat_cross [OF a b ab rect cols tmp]
  have C: "fst (get_pair_data False a (Some b) h) = Inr ?C" by simp
  from D have "abs_diff_between_all_row_pairs ?A ?B False = Inr D"
    by (simp add: get_pair_data_def)
  from abs_diff_cross_rows(2) [OF this] cols
  have d: "map Inr (rows D) =
      map (\<lambda>(rb, ra). np_broadcast cell_abs_diff ra rb) (List.product (rows ?B) (rows ?A))"
    by simp
  have len: "length ra = ?F" if "ra \<in> set (rows ?A)" for ra
    using rect(1) that by (simp add: rectangular_def)
  have "map (block_abs_diff ?F) (rows ?C) =
      map (\<lambda>z. block_abs_diff ?F (fst z @ snd z)) (List.product (rows ?A) (rows ?B))"
    by (simp add: comp_def case_prod_unfold)
  also have "\<dots> = map (\<lambda>z. np_broadcast cell_abs_diff (fst z) (snd z))
      (List.product (rows ?A) (rows ?B))"
    using len by (intro map_cong refl block_abs_diff_append) auto
  finally have c: "map (block_abs_diff ?F) (rows ?C) =
      map (\<lambda>(ra, rb). np_broadcast cell_abs_diff ra rb) (List.product (rows ?A) (rows ?B))"
    by (simp add: case_prod_unfold)
  have "mset (map (block_abs_diff ?F) (rows ?C)) =
      mset (map (\<lambda>(ra, rb). np_broadcast cell_abs_diff ra rb) (List.product (rows ?A) (rows ?B)))"
    by (simp only: c)
  also have "\<dots> =
      mset (map (\<lambda>(rb, ra). np_broadcast cell_abs_diff ra rb) (List.product (rows ?B) (rows ?A)))"
    by (rule mset_product_swap)
  also have "\<dots> = mset (map Inr (rows D))"
    by (simp only: d)
  finally have "mset (map (block_abs_diff ?F) (rows ?C)) = mset (map Inr (rows D))" .
  with C show ?thesis by blast
qed

section \<open>Where diff mode returns, and each pair once in both modes\<close>

lemma cell_abs_diff_numeric: "is_Num x \<Longrightarrow> is_Num y \<Longrightarrow> \<exists>v. cell_abs_diff x y = Inr v"
  by (cases x; cases y) simp_all

lemma np_broadcast_numeric:
  assumes "list_all is_Num a" and "list_all is_Num b" and "length a = length b"
  shows "\<exists>r. np_broadcast cell_abs_diff a b = Inr r"
proof -
  have "\<exists>v. (\<lambda>(x, y). cell_abs_diff x y) z = Inr v" if "z \<in> set (zip a b)" for z
  proof -
    obtain x y where z: "z = (x, y)" by (cases z)
    with that have "x \<in> set a" "y \<in> set b" by (auto dest: set_zip_leftD set_zip_rightD)
    with assms(1,2) have "is_Num x" "is_Num y" by (auto simp: list_all_iff)
    with z show ?thesis by (simp add: cell_abs_diff_numeric)
  qed
  from collect_all_Inr [of "zip a b" "\<lambda>(x, y). cell_abs_diff x y", OF this] assms(3)
  show ?thesis by (simp add: np_broadcast_def)
qed

lemma broadcast_abs_diff_numeric:
  assumes "numeric A" and "numeric B" and "rectangular A" and "rectangular B"
    and "length (columns B) = length (columns A)"
  shows "\<exists>P. broadcast_abs_diff A B = Inr P"
proof -
  have row: "\<exists>r. np_broadcast cell_abs_diff a b = Inr r"
    if "a \<in> set (rows A)" "b \<in> set (rows B)" for a b
    using that assms by (intro np_broadcast_numeric) (auto simp: numeric_def rectangular_def list_all_iff)
  have inner: "\<exists>v. collect (map (\<lambda>a. np_broadcast cell_abs_diff a b) (rows A)) = Inr v"
    if "b \<in> set (rows B)" for b
    by (rule collect_all_Inr) (rule row [OF _ that])
  have "\<exists>P. collect (map (\<lambda>b. collect (map (\<lambda>a. np_broadcast cell_abs_diff a b) (rows A)))
      (rows B)) = Inr P"
    by (rule collect_all_Inr) (rule inner)
  with assms(5) show ?thesis by (simp add: broadcast_abs_diff_def)
qed

lemma abs_diff_within_returns:
  assumes "numeric A" and "rectangular A" and "2 \<le> length (rows A)"
  shows "\<exists>D. abs_diff_between_all_row_pairs A A True = Inr D"
proof -
  from broadcast_abs_diff_numeric [OF assms(1,1,2,2)] obtain P
    where P: "broadcast_abs_diff A A = Inr P" by auto
  from broadcast_abs_diff_Inr(1) [OF P] have "length P = length (rows A)" .
  with P assms(3) show ?thesis
    by (simp add: abs_diff_between_all_row_pairs_def Let_def)
qed

lemma abs_diff_cross_returns:
  assumes "numeric A" and "numeric B" and "rectangular A" and "rectangular B"
    and "length (columns B) = length (columns A)" and "columns A \<noteq> []"
  shows "\<exists>D. abs_diff_between_all_row_pairs A B False = Inr D"
proof -
  from broadcast_abs_diff_numeric [OF assms(1-5)] obtain P
    where P: "broadcast_abs_diff A B = Inr P" by auto
  with assms(5,6) show ?thesis
    by (simp add: abs_diff_between_all_row_pairs_def Let_def)
qed

lemma length_map_Inr_eq:
  assumes "map Inr xs = map f ps"
  shows "length xs = length ps"
  using assms by (metis length_map)

text \<open>
  Within a group of at least two rows of numbers, diff mode returns, and its rows are
  the differences of the row pairs \<open>diff_within_index_pairs\<close>, each unordered pair once.
\<close>

lemma diff_within_each_pair_once:
  assumes "a < length h" and "numeric (h ! a)" and "rectangular (h ! a)"
    and "2 \<le> length (rows (h ! a))"
  shows "\<exists>D. fst (get_pair_data True a None h) = Inr D \<and> columns D = columns (h ! a) \<and>
      map Inr (rows D) =
        map (\<lambda>(index_A, index_B).
               np_broadcast cell_abs_diff (rows (h ! a) ! index_A) (rows (h ! a) ! index_B))
          (diff_within_index_pairs (length (rows (h ! a)))) \<and>
      length (rows D) = length (rows (h ! a)) * (length (rows (h ! a)) - 1) div 2"
    and "each_pair_once (length (rows (h ! a))) (diff_within_index_pairs (length (rows (h ! a))))"
proof -
  from abs_diff_within_returns [OF assms(2,3,4)] obtain D
    where D: "abs_diff_between_all_row_pairs (h ! a) (h ! a) True = Inr D" by auto
  note once = each_pair_once_diff_within_index_pairs [of "length (rows (h ! a))"]
  from length_map_Inr_eq [OF abs_diff_within_rows(3) [OF D]] once
  have "length (rows D) = length (rows (h ! a)) * (length (rows (h ! a)) - 1) div 2"
    by (simp add: each_pair_once_def)
  with D abs_diff_within_rows(1,3) [OF D]
  show "\<exists>D. fst (get_pair_data True a None h) = Inr D \<and> columns D = columns (h ! a) \<and>
      map Inr (rows D) =
        map (\<lambda>(index_A, index_B).
               np_broadcast cell_abs_diff (rows (h ! a) ! index_A) (rows (h ! a) ! index_B))
          (diff_within_index_pairs (length (rows (h ! a)))) \<and>
      length (rows D) = length (rows (h ! a)) * (length (rows (h ! a)) - 1) div 2"
    by (simp add: get_pair_data_def)
  from once show "each_pair_once (length (rows (h ! a)))
      (diff_within_index_pairs (length (rows (h ! a))))" .
qed

text \<open>
  Within any group, concat mode returns the rows of the pairs \<open>index_pairs_A_greater\<close>,
  each unordered pair once.
\<close>

lemma concat_within_each_pair_once:
  assumes "a < length h" and "rectangular (h ! a)"
    and "tmp_cart_prod_colname \<notin> set (columns (h ! a))"
    and "tmp_row_number_colname \<notin> set (columns (h ! a))"
  shows "\<exists>C. fst (get_pair_data False a None h) = Inr C \<and>
      rows C = concat_pair_rows (h ! a) (index_pairs_A_greater (length (rows (h ! a)))) \<and>
      length (rows C) = length (rows (h ! a)) * (length (rows (h ! a)) - 1) div 2"
    and "each_pair_once (length (rows (h ! a))) (index_pairs_A_greater (length (rows (h ! a))))"
proof -
  note once = each_pair_once_index_pairs_A_greater [of "length (rows (h ! a))"]
  from get_pair_data_concat_within [OF assms] once
  show "\<exists>C. fst (get_pair_data False a None h) = Inr C \<and>
      rows C = concat_pair_rows (h ! a) (index_pairs_A_greater (length (rows (h ! a)))) \<and>
      length (rows C) = length (rows (h ! a)) * (length (rows (h ! a)) - 1) div 2"
    by (simp add: concat_pair_rows_def index_pairs_A_greater_def cross_join_index_pairs_def
        each_pair_once_def)
  from once show "each_pair_once (length (rows (h ! a)))
      (index_pairs_A_greater (length (rows (h ! a))))" .
qed

section \<open>The row counts of the assembled dataset\<close>

lemma collect_map_total:
  assumes "\<And>x. x \<in> set xs \<Longrightarrow> g x = Inr (d x)"
  shows "collect (map g xs) = Inr (map d xs)"
  using assms by (induction xs) simp_all

lemma setitem_scalar_rows_new:
  "name \<notin> set (columns f) \<Longrightarrow> rows (setitem_scalar name v f) = map (\<lambda>r. r @ [v]) (rows f)"
  by (simp add: setitem_scalar_new)

lemma count_label_stacked:
  assumes "''label'' \<notin> set S"
    and "\<forall>r \<in> set rn. length r = length S" and "\<forall>r \<in> set rp. length r = length S"
    and "v0 \<noteq> v1"
  shows "count_label v0 \<lparr>columns = S @ [''label''],
           rows = map (\<lambda>r. r @ [v0]) rn @ map (\<lambda>r. r @ [v1]) rp\<rparr> = length rn"
    and "count_label v1 \<lparr>columns = S @ [''label''],
           rows = map (\<lambda>r. r @ [v0]) rn @ map (\<lambda>r. r @ [v1]) rp\<rparr> = length rp"
proof -
  have at: "at_col (S @ [''label'']) (r @ [v]) ''label'' = v" if "length r = length S" for r v
    using that assms(1) at_col_append_notin [of "''label''" S r "[''label'']" "[v]"]
    by (simp add: at_col_Cons)
  have n0: "filter (\<lambda>r. at_col (S @ [''label'']) r ''label'' = v0) (map (\<lambda>r. r @ [v0]) rn) =
      map (\<lambda>r. r @ [v0]) rn"
    using assms(2) at by (simp add: filter_id_conv)
  have p0: "filter (\<lambda>r. at_col (S @ [''label'']) r ''label'' = v0) (map (\<lambda>r. r @ [v1]) rp) = []"
    using assms(3,4) at by (simp add: filter_empty_conv)
  have n1: "filter (\<lambda>r. at_col (S @ [''label'']) r ''label'' = v1) (map (\<lambda>r. r @ [v0]) rn) = []"
    using assms(2,4) at by (simp add: filter_empty_conv)
  have p1: "filter (\<lambda>r. at_col (S @ [''label'']) r ''label'' = v1) (map (\<lambda>r. r @ [v1]) rp) =
      map (\<lambda>r. r @ [v1]) rp"
    using assms(3) at by (simp add: filter_id_conv)
  show "count_label v0 \<lparr>columns = S @ [''label''],
           rows = map (\<lambda>r. r @ [v0]) rn @ map (\<lambda>r. r @ [v1]) rp\<rparr> = length rn"
    by (simp add: count_label_def n0 p0)
  show "count_label v1 \<lparr>columns = S @ [''label''],
           rows = map (\<lambda>r. r @ [v0]) rn @ map (\<lambda>r. r @ [v1]) rp\<rparr> = length rp"
    by (simp add: count_label_def n1 p1)
qed

text \<open>
  The assembly: when every work item gives a rectangular table with the labels \<open>S\<close>
  and there is at least one item of each kind, the dataset has one row per row of these
  tables, labelled 0 for the cross-subject items and 1 for the within-subject items.
\<close>

lemma assembled_counts:
  assumes N: "\<And>x. x \<in> set wl \<Longrightarrow> gN x = Inr (dN x) \<and> columns (dN x) = S \<and> rectangular (dN x)"
    and P: "\<And>u. u \<in> set us \<Longrightarrow> gP u = Inr (dP u) \<and> columns (dP u) = S \<and> rectangular (dP u)"
    and ne: "wl \<noteq> []" "us \<noteq> []"
    and label: "''label'' \<notin> set S"
  shows "\<exists>out.
     (case collect (map gN wl) of
        Inl e \<Rightarrow> Inl e
      | Inr negative_DFs \<Rightarrow>
          (case pd_concat negative_DFs of
             Inl e \<Rightarrow> Inl e
           | Inr DF_negative \<Rightarrow>
               (case collect (map gP us) of
                  Inl e \<Rightarrow> Inl e
                | Inr positive_DFs \<Rightarrow>
                    (case pd_concat positive_DFs of
                       Inl e \<Rightarrow> Inl e
                     | Inr DF_positive \<Rightarrow>
                         pd_concat [setitem_scalar ''label'' (Num (Fin 0)) DF_negative,
                                    setitem_scalar ''label'' (Num (Fin 1)) DF_positive])))) = Inr out \<and>
     count_label (Num (Fin 0)) out = sum_list (map (\<lambda>x. length (rows (dN x))) wl) \<and>
     count_label (Num (Fin 1)) out = sum_list (map (\<lambda>u. length (rows (dP u))) us) \<and>
     length (rows out) = sum_list (map (\<lambda>x. length (rows (dN x))) wl) +
       sum_list (map (\<lambda>u. length (rows (dP u))) us)"
proof -
  let ?RN = "concat (map rows (map dN wl))" and ?RP = "concat (map rows (map dP us))"
  let ?DN = "\<lparr>columns = S, rows = ?RN\<rparr>" and ?DP = "\<lparr>columns = S, rows = ?RP\<rparr>"
  have cN: "collect (map gN wl) = Inr (map dN wl)"
    using N by (intro collect_map_total) simp
  have cP: "collect (map gP us) = Inr (map dP us)"
    using P by (intro collect_map_total) simp
  have pN: "pd_concat (map dN wl) = Inr ?DN"
    using N ne(1) by (intro pd_concat_same_columns) auto
  have pP: "pd_concat (map dP us) = Inr ?DP"
    using P ne(2) by (intro pd_concat_same_columns) auto
  have lN: "setitem_scalar ''label'' (Num (Fin 0)) ?DN =
      \<lparr>columns = S @ [''label''], rows = map (\<lambda>r. r @ [Num (Fin 0)]) ?RN\<rparr>"
    using label by (simp add: setitem_scalar_new)
  have lP: "setitem_scalar ''label'' (Num (Fin 1)) ?DP =
      \<lparr>columns = S @ [''label''], rows = map (\<lambda>r. r @ [Num (Fin 1)]) ?RP\<rparr>"
    using label by (simp add: setitem_scalar_new)
  let ?out = "\<lparr>columns = S @ [''label''],
      rows = map (\<lambda>r. r @ [Num (Fin 0)]) ?RN @ map (\<lambda>r. r @ [Num (Fin 1)]) ?RP\<rparr>"
  have fin: "pd_concat [setitem_scalar ''label'' (Num (Fin 0)) ?DN,
      setitem_scalar ''label'' (Num (Fin 1)) ?DP] = Inr ?out"
    unfolding lN lP
    using pd_concat_same_columns [of "[\<lparr>columns = S @ [''label''],
        rows = map (\<lambda>r. r @ [Num (Fin 0)]) ?RN\<rparr>, \<lparr>columns = S @ [''label''],
        rows = map (\<lambda>r. r @ [Num (Fin 1)]) ?RP\<rparr>]" "S @ [''label'']"]
    by simp
  have wN: "\<forall>r \<in> set ?RN. length r = length S"
    using N by (auto simp: rectangular_def)
  have wP: "\<forall>r \<in> set ?RP. length r = length S"
    using P by (auto simp: rectangular_def)
  have lenN: "length ?RN = sum_list (map (\<lambda>x. length (rows (dN x))) wl)"
    by (simp add: length_concat comp_def)
  have lenP: "length ?RP = sum_list (map (\<lambda>u. length (rows (dP u))) us)"
    by (simp add: length_concat comp_def)
  have neq: "Num (Fin 0) \<noteq> Num (Fin 1)" by simp
  note counts = count_label_stacked [OF label wN wP neq]
  have c0: "count_label (Num (Fin 0)) ?out = sum_list (map (\<lambda>x. length (rows (dN x))) wl)"
    using counts(1) lenN by simp
  have c1: "count_label (Num (Fin 1)) ?out = sum_list (map (\<lambda>u. length (rows (dP u))) us)"
    using counts(2) lenP by simp
  have c2: "length (rows ?out) = sum_list (map (\<lambda>x. length (rows (dN x))) wl) +
       sum_list (map (\<lambda>u. length (rows (dP u))) us)"
    using lenN lenP by simp
  have V: "(case collect (map gN wl) of
        Inl e \<Rightarrow> Inl e
      | Inr negative_DFs \<Rightarrow>
          (case pd_concat negative_DFs of
             Inl e \<Rightarrow> Inl e
           | Inr DF_negative \<Rightarrow>
               (case collect (map gP us) of
                  Inl e \<Rightarrow> Inl e
                | Inr positive_DFs \<Rightarrow>
                    (case pd_concat positive_DFs of
                       Inl e \<Rightarrow> Inl e
                     | Inr DF_positive \<Rightarrow>
                         pd_concat [setitem_scalar ''label'' (Num (Fin 0)) DF_negative,
                                    setitem_scalar ''label'' (Num (Fin 1)) DF_positive])))) = Inr ?out"
    by (simp only: cN pN cP pP fin sum.case)
  from V c0 c1 c2 show ?thesis by blast
qed

section \<open>Work items in concat mode\<close>

lemma filter_upt_greater: "filter (\<lambda>j. i < j) [0..<U] = [Suc i..<U]"
  by (induction U) auto

lemma negative_worklist_filter:
  "negative_worklist U = filter (\<lambda>(i, j). i < j) (List.product [0..<U] [0..<U])"
proof -
  have "filter (\<lambda>(i, j). i < j) (List.product [0..<U] [0..<U]) =
      concat (map (\<lambda>i. map (Pair i) (filter (\<lambda>j. i < j) [0..<U])) [0..<U])"
    by (simp add: product_concat_map filter_concat filter_map comp_def)
  also have "\<dots> = concat (map (\<lambda>i. map (Pair i) [Suc i..<U]) [0..<U])"
    by (simp only: filter_upt_greater)
  also have "\<dots> = concat (map (\<lambda>i. map (Pair i) [Suc i..<U]) [0..<U - 1])"
    by (cases U) simp_all
  finally show ?thesis by (simp add: negative_worklist_def)
qed

lemma set_negative_worklist: "set (negative_worklist U) = {(i, j). i < j \<and> j < U}"
  by (auto simp: negative_worklist_filter)

lemma user_rows_value:
  assumes names: "getitem ''user_name'' T = Inr names" and fn: "set fn \<subseteq> set (columns T)"
  shows "\<exists>A. user_rows T u fn = Inr A \<and> columns A = fn \<and> rectangular A \<and>
    length (rows A) = group_size T u"
proof -
  let ?k = "\<lambda>r. at_col (columns T) r ''user_name''"
  from names have n: "names = map ?k (rows T)"
    by (simp add: getitem_def split: if_splits)
  have "map snd (filter fst (zip (map (\<lambda>x. cell_eq x u) names) (rows T))) =
      filter (\<lambda>r. cell_eq (?k r) u) (rows T)"
    unfolding n using filter_snd_zip [of "\<lambda>r. cell_eq (?k r) u" "rows T"]
    by (simp add: comp_def)
  moreover have "length (filter (\<lambda>r. cell_eq (?k r) u) (rows T)) =
      length (filter (\<lambda>x. cell_eq x u) names)"
    unfolding n by (simp add: filter_map comp_def)
  ultimately show ?thesis
    using names fn by (simp add: user_rows_def loc_def group_size_def rectangular_def)
qed

lemma suffix_neq_label: "c @ ''_A'' \<noteq> ''label''" "c @ ''_B'' \<noteq> ''label''"
  "''label'' \<noteq> c @ ''_A''" "''label'' \<noteq> c @ ''_B''"
  by (auto dest!: arg_cong [where f = rev])

lemma label_not_in_concat_schema: "''label'' \<notin> set (pair_schema False fn)"
  using suffix_neq_label by (auto simp: pair_schema_def)

lemma negative_body_concat:
  assumes names: "getitem ''user_name'' T = Inr names" and fn: "set fn \<subseteq> set (columns T)"
    and tmp: "tmp_cart_prod_colname \<notin> set fn"
  shows "\<exists>D. fst (negative_body 0 fn False us ij [T]) = Inr D \<and>
    columns D = pair_schema False fn \<and> rectangular D \<and>
    length (rows D) = group_size T (us ! fst ij) * group_size T (us ! snd ij)"
proof -
  from user_rows_value [OF names fn, of "us ! fst ij"] obtain A where
    A: "user_rows T (us ! fst ij) fn = Inr A" "columns A = fn" "rectangular A"
      "length (rows A) = group_size T (us ! fst ij)" by blast
  from user_rows_value [OF names fn, of "us ! snd ij"] obtain B where
    B: "user_rows T (us ! snd ij) fn = Inr B" "columns B = fn" "rectangular B"
      "length (rows B) = group_size T (us ! snd ij)" by blast
  let ?D = "\<lparr>columns = map (\<lambda>c. c @ ''_A'') fn @ map (\<lambda>c. c @ ''_B'') fn,
             rows = map (\<lambda>(ra, rb). ra @ rb) (List.product (rows A) (rows B))\<rparr>"
  from get_pair_data_concat_cross [of 0 "[A, B]" 1] A(2,3) B(2,3) tmp
  have g: "fst (get_pair_data False 0 (Some 1) [A, B]) = Inr ?D" by simp
  have v: "fst (negative_body 0 fn False us ij [T]) = Inr ?D"
    unfolding negative_body_value using A(1) B(1) g by simp
  have "rectangular ?D"
    using A(2,3) B(2,3) by (auto simp: rectangular_def)
  moreover have "length (rows ?D) = group_size T (us ! fst ij) * group_size T (us ! snd ij)"
    using A(4) B(4) by simp
  ultimately show ?thesis using v by (simp add: pair_schema_def)
qed

lemma positive_body_concat:
  assumes names: "getitem ''user_name'' T = Inr names" and fn: "set fn \<subseteq> set (columns T)"
    and tmp: "tmp_cart_prod_colname \<notin> set fn" and rn: "tmp_row_number_colname \<notin> set fn"
  shows "\<exists>D. fst (positive_body 0 fn False u [T]) = Inr D \<and>
    columns D = pair_schema False fn \<and> rectangular D \<and>
    length (rows D) = group_size T u * (group_size T u - 1) div 2"
proof -
  from user_rows_value [OF names fn, of u] obtain A where
    A: "user_rows T u fn = Inr A" "columns A = fn" "rectangular A"
      "length (rows A) = group_size T u" by blast
  let ?n = "length (rows A)"
  let ?D = "\<lparr>columns = pair_schema False fn,
             rows = concat_pair_rows A (index_pairs_A_greater ?n)\<rparr>"
  from get_pair_data_concat_within [of 0 "[A]"] A(2,3) tmp rn
  have g: "fst (get_pair_data False 0 None [A]) = Inr ?D"
    by (simp add: pair_schema_def concat_pair_rows_def index_pairs_A_greater_def
        cross_join_index_pairs_def)
  have v: "fst (positive_body 0 fn False u [T]) = Inr ?D"
    unfolding positive_body_value using A(1) g by simp
  have len: "length (rows A ! p) = length fn" if "p < ?n" for p
    using A(2,3) that by (simp add: rectangular_def)
  have "rectangular ?D"
    using len by (auto simp: rectangular_def concat_pair_rows_def pair_schema_def
        set_index_pairs_A_greater)
  moreover have "length (rows ?D) = group_size T u * (group_size T u - 1) div 2"
    using each_pair_once_index_pairs_A_greater [of ?n] A(4)
    by (simp add: concat_pair_rows_def each_pair_once_def)
  ultimately show ?thesis using v by simp
qed

section \<open>The row counts in concat mode\<close>

lemma sum_list_worklist:
  assumes "length ns = U"
  shows "sum_list (map (\<lambda>ij. ns ! fst ij * ns ! snd ij) (negative_worklist U)) =
    expected_negative_rows ns"
  using assms
  by (simp add: expected_negative_rows_def negative_worklist_filter case_prod_unfold)

text \<open>
  In concat mode, on a table of at least two subjects that has the feature columns
  (none of them named as a temporary column of the engine), the generator returns,
  and the dataset has the numbers of rows the specification gives.
\<close>

lemma extract_pairs_concat_counts:
  assumes r: "r < length h"
    and names: "getitem ''user_name'' (h ! r) = Inr names"
    and us: "pd_unique names = Inr us"
    and two: "2 \<le> length us"
    and fn: "set fn \<subseteq> set (columns (h ! r))"
    and tmp: "tmp_cart_prod_colname \<notin> set fn"
    and rn: "tmp_row_number_colname \<notin> set fn"
  shows "\<exists>out. fst (extract_pairs r fn False h) = Inr out \<and>
    count_label (Num (Fin 0)) out = expected_negative_rows (map (group_size (h ! r)) us) \<and>
    count_label (Num (Fin 1)) out = expected_positive_rows (map (group_size (h ! r)) us) \<and>
    length (rows out) = expected_negative_rows (map (group_size (h ! r)) us) +
      expected_positive_rows (map (group_size (h ! r)) us)"
proof -
  let ?T = "h ! r"
  let ?S = "pair_schema False fn"
  let ?gN = "\<lambda>ij. fst (negative_body 0 fn False us ij [?T])"
  let ?gP = "\<lambda>u. fst (positive_body 0 fn False u [?T])"
  let ?dN = "\<lambda>ij. projr (?gN ij)" and ?dP = "\<lambda>u. projr (?gP u)"
  let ?wl = "negative_worklist (length us)"
  let ?ns = "map (group_size ?T) us"
  have N: "?gN ij = Inr (?dN ij) \<and> columns (?dN ij) = ?S \<and> rectangular (?dN ij) \<and>
      length (rows (?dN ij)) = group_size ?T (us ! fst ij) * group_size ?T (us ! snd ij)" for ij
    using negative_body_concat [OF names fn tmp, of us ij] by auto
  have P: "?gP u = Inr (?dP u) \<and> columns (?dP u) = ?S \<and> rectangular (?dP u) \<and>
      length (rows (?dP u)) = group_size ?T u * (group_size ?T u - 1) div 2" for u
    using positive_body_concat [OF names fn tmp rn, of u] by auto
  have wl: "?wl \<noteq> []"
  proof -
    from two have "(0, 1) \<in> set ?wl" by (simp add: set_negative_worklist)
    then show ?thesis by auto
  qed
  from two have ne: "us \<noteq> []" by auto
  have ok: "\<not> (False \<and> ''sequence'' \<in> set fn)" by simp
  from assembled_counts [of ?wl ?gN ?dN ?S us ?gP ?dP, OF _ _ wl ne label_not_in_concat_schema]
    N P
  obtain out where out: "fst (extract_pairs r fn False h) = Inr out"
    and c0: "count_label (Num (Fin 0)) out = sum_list (map (\<lambda>x. length (rows (?dN x))) ?wl)"
    and c1: "count_label (Num (Fin 1)) out = sum_list (map (\<lambda>u. length (rows (?dP u))) us)"
    and c2: "length (rows out) = sum_list (map (\<lambda>x. length (rows (?dN x))) ?wl) +
       sum_list (map (\<lambda>u. length (rows (?dP u))) us)"
    unfolding extract_pairs_value(1) [OF r names us ok] by blast
  have "sum_list (map (\<lambda>x. length (rows (?dN x))) ?wl) =
      sum_list (map (\<lambda>ij. ?ns ! fst ij * ?ns ! snd ij) ?wl)"
    using N by (intro arg_cong [where f = sum_list] map_cong refl)
      (auto simp: set_negative_worklist)
  also have "\<dots> = expected_negative_rows ?ns"
    by (rule sum_list_worklist) simp
  finally have s0: "sum_list (map (\<lambda>x. length (rows (?dN x))) ?wl) = expected_negative_rows ?ns" .
  have s1: "sum_list (map (\<lambda>u. length (rows (?dP u))) us) = expected_positive_rows ?ns"
    using P by (simp add: expected_positive_rows_def comp_def)
  from out c0 c1 c2 s0 s1 show ?thesis by auto
qed

lemma table_212_concat_counts:
  "fst (extract_pairs 0 [''f''] False [table_212]) = Inr dataset_212_concat \<and>
   length (rows dataset_212_concat) = 10 \<and>
   count_label (Num (Fin 0)) dataset_212_concat = 8 \<and>
   count_label (Num (Fin 1)) dataset_212_concat = 2 \<and>
   expected_negative_rows [2, 1, 2] = 8 \<and> expected_positive_rows [2, 1, 2] = 2"
  by code_simp

section \<open>The row counts in diff mode\<close>

lemma np_broadcast_length:
  assumes "np_broadcast f a b = Inr r" and "length a = length b"
  shows "length r = length a"
proof -
  from assms have "collect (map (\<lambda>(x, y). f x y) (zip a b)) = Inr r"
    by (simp add: np_broadcast_def)
  from collect_Inr_nth(1) [OF this] assms(2) show ?thesis by simp
qed

lemma user_rows_numeric:
  assumes "user_rows T u fn = Inr A" and "numeric_features T fn"
  shows "numeric A"
proof -
  from assms(1) obtain sel where "loc sel fn T = Inr A"
    by (auto simp: user_rows_def split: sum.splits)
  then have rows: "rows A = map (\<lambda>r. map (at_col (columns T) r) fn)
      (map snd (filter fst (zip sel (rows T))))"
    by (auto simp: loc_def split: if_splits)
  have sub: "set (map snd (filter fst (zip sel (rows T)))) \<subseteq> set (rows T)"
    by (auto dest: set_zip_rightD)
  have "list_all is_Num row" if "row \<in> set (rows A)" for row
  proof -
    from that obtain r0 where "r0 \<in> set (map snd (filter fst (zip sel (rows T))))"
      and row: "row = map (at_col (columns T) r0) fn"
      unfolding rows by auto
    with sub have "r0 \<in> set (rows T)" by blast
    with assms(2) have "\<forall>c \<in> set fn. is_Num (at_col (columns T) r0 c)"
      by (simp add: numeric_features_def list_all_iff)
    then show ?thesis by (simp add: row list_all_iff)
  qed
  then show ?thesis by (simp add: numeric_def list_all_iff)
qed

lemma abs_diff_cross_shape:
  assumes D: "abs_diff_between_all_row_pairs A B False = Inr D"
    and cols: "length (columns B) = length (columns A)"
    and rect: "rectangular A" "rectangular B"
  shows "rectangular D" and "length (rows D) = length (rows A) * length (rows B)"
proof -
  note rows = abs_diff_cross_rows(2) [OF D cols]
  from length_map_Inr_eq [OF rows]
  show "length (rows D) = length (rows A) * length (rows B)" by simp
  have "length x = length (columns D)" if x: "x \<in> set (rows D)" for x
  proof -
    have "set (map Inr (rows D)) = (\<lambda>(b, a). np_broadcast cell_abs_diff a b) `
        set (List.product (rows B) (rows A))"
      by (simp only: rows set_map)
    moreover from x have "Inr x \<in> set (map Inr (rows D))" by simp
    ultimately have "Inr x \<in> (\<lambda>(b, a). np_broadcast cell_abs_diff a b) `
        set (List.product (rows B) (rows A))"
      by blast
    then obtain z where z: "z \<in> set (List.product (rows B) (rows A))"
      and zx: "Inr x = (case z of (b, a) \<Rightarrow> np_broadcast cell_abs_diff a b)"
      by (rule imageE)
    obtain b a where zba: "z = (b, a)" by (cases z)
    from z zx zba have "b \<in> set (rows B)" "a \<in> set (rows A)"
      and nb: "np_broadcast cell_abs_diff a b = Inr x"
      by simp_all
    with rect cols have "length a = length b" "length a = length (columns A)"
      by (simp_all add: rectangular_def)
    with np_broadcast_length [OF nb] abs_diff_cross_rows(1) [OF D cols]
    show ?thesis by simp
  qed
  then show "rectangular D" by (simp add: rectangular_def)
qed

lemma abs_diff_within_shape:
  assumes D: "abs_diff_between_all_row_pairs A A True = Inr D"
    and rect: "rectangular A"
  shows "rectangular D" and "length (rows D) = length (rows A) * (length (rows A) - 1) div 2"
proof -
  let ?n = "length (rows A)"
  note rows = abs_diff_within_rows(3) [OF D]
  from length_map_Inr_eq [OF rows] each_pair_once_diff_within_index_pairs [of ?n]
  show "length (rows D) = ?n * (?n - 1) div 2" by (simp add: each_pair_once_def)
  have "length x = length (columns D)" if x: "x \<in> set (rows D)" for x
  proof -
    have "set (map Inr (rows D)) =
        (\<lambda>(p, q). np_broadcast cell_abs_diff (rows A ! p) (rows A ! q)) `
        set (diff_within_index_pairs ?n)"
      by (simp only: rows set_map)
    moreover from x have "Inr x \<in> set (map Inr (rows D))" by simp
    ultimately have "Inr x \<in>
        (\<lambda>(p, q). np_broadcast cell_abs_diff (rows A ! p) (rows A ! q)) `
        set (diff_within_index_pairs ?n)"
      by blast
    then obtain z where z: "z \<in> set (diff_within_index_pairs ?n)"
      and zx: "Inr x = (case z of (p, q) \<Rightarrow>
          np_broadcast cell_abs_diff (rows A ! p) (rows A ! q))"
      by (rule imageE)
    obtain p q where zpq: "z = (p, q)" by (cases z)
    from z zx zpq have pq: "(p, q) \<in> set (diff_within_index_pairs ?n)"
      and nb: "np_broadcast cell_abs_diff (rows A ! p) (rows A ! q) = Inr x"
      by simp_all
    from pq have "p < ?n" "q < ?n" by (auto simp: set_diff_within_index_pairs)
    with rect have "length (rows A ! p) = length (rows A ! q)"
      "length (rows A ! p) = length (columns A)"
      by (simp_all add: rectangular_def)
    with np_broadcast_length [OF nb] abs_diff_within_rows(1) [OF D]
    show ?thesis by simp
  qed
  then show "rectangular D" by (simp add: rectangular_def)
qed

lemma negative_body_diff:
  assumes names: "getitem ''user_name'' T = Inr names" and fn: "set fn \<subseteq> set (columns T)"
    and ne: "fn \<noteq> []" and num: "numeric_features T fn"
  shows "\<exists>D. fst (negative_body 0 fn True us ij [T]) = Inr D \<and>
    columns D = pair_schema True fn \<and> rectangular D \<and>
    length (rows D) = group_size T (us ! fst ij) * group_size T (us ! snd ij)"
proof -
  from user_rows_value [OF names fn, of "us ! fst ij"] obtain A where
    A: "user_rows T (us ! fst ij) fn = Inr A" "columns A = fn" "rectangular A"
      "length (rows A) = group_size T (us ! fst ij)" by blast
  from user_rows_value [OF names fn, of "us ! snd ij"] obtain B where
    B: "user_rows T (us ! snd ij) fn = Inr B" "columns B = fn" "rectangular B"
      "length (rows B) = group_size T (us ! snd ij)" by blast
  have nA: "numeric A" and nB: "numeric B"
    using user_rows_numeric [OF A(1) num] user_rows_numeric [OF B(1) num] .
  have cols: "length (columns B) = length (columns A)" using A(2) B(2) by simp
  from abs_diff_cross_returns [OF nA nB A(3) B(3) cols] A(2) ne obtain D where
    D: "abs_diff_between_all_row_pairs A B False = Inr D" by auto
  have v: "fst (negative_body 0 fn True us ij [T]) = Inr D"
    unfolding negative_body_value using A(1) B(1) D by (simp add: get_pair_data_def)
  from v abs_diff_cross_rows(1) [OF D cols] abs_diff_cross_shape [OF D cols A(3) B(3)] A(2,4) B(4)
  show ?thesis by (simp add: pair_schema_def)
qed

lemma positive_body_diff:
  assumes names: "getitem ''user_name'' T = Inr names" and fn: "set fn \<subseteq> set (columns T)"
    and num: "numeric_features T fn" and two: "2 \<le> group_size T u"
  shows "\<exists>D. fst (positive_body 0 fn True u [T]) = Inr D \<and>
    columns D = pair_schema True fn \<and> rectangular D \<and>
    length (rows D) = group_size T u * (group_size T u - 1) div 2"
proof -
  from user_rows_value [OF names fn, of u] obtain A where
    A: "user_rows T u fn = Inr A" "columns A = fn" "rectangular A"
      "length (rows A) = group_size T u" by blast
  have nA: "numeric A" using user_rows_numeric [OF A(1) num] .
  from abs_diff_within_returns [OF nA A(3)] two A(4) obtain D where
    D: "abs_diff_between_all_row_pairs A A True = Inr D" by auto
  have v: "fst (positive_body 0 fn True u [T]) = Inr D"
    unfolding positive_body_value using A(1) D by (simp add: get_pair_data_def)
  from v abs_diff_within_rows(1) [OF D] abs_diff_within_shape [OF D A(3)] A(2,4)
  show ?thesis by (simp add: pair_schema_def)
qed

text \<open>
  In diff mode, on a table of at least two subjects with at least two rows each and
  at least one feature column, all of numbers, the generator returns, and the dataset
  has the numbers of rows the specification gives.
\<close>

lemma extract_pairs_diff_counts:
  assumes r: "r < length h"
    and names: "getitem ''user_name'' (h ! r) = Inr names"
    and us: "pd_unique names = Inr us"
    and two: "2 \<le> length us"
    and sizes: "\<forall>u \<in> set us. 2 \<le> group_size (h ! r) u"
    and fn: "set fn \<subseteq> set (columns (h ! r))" "fn \<noteq> []"
    and num: "numeric_features (h ! r) fn"
    and seq: "''sequence'' \<notin> set fn" and label: "''label'' \<notin> set fn"
  shows "\<exists>out. fst (extract_pairs r fn True h) = Inr out \<and>
    count_label (Num (Fin 0)) out = expected_negative_rows (map (group_size (h ! r)) us) \<and>
    count_label (Num (Fin 1)) out = expected_positive_rows (map (group_size (h ! r)) us) \<and>
    length (rows out) = expected_negative_rows (map (group_size (h ! r)) us) +
      expected_positive_rows (map (group_size (h ! r)) us)"
proof -
  let ?T = "h ! r"
  let ?S = "pair_schema True fn"
  let ?gN = "\<lambda>ij. fst (negative_body 0 fn True us ij [?T])"
  let ?gP = "\<lambda>u. fst (positive_body 0 fn True u [?T])"
  let ?dN = "\<lambda>ij. projr (?gN ij)" and ?dP = "\<lambda>u. projr (?gP u)"
  let ?wl = "negative_worklist (length us)"
  let ?ns = "map (group_size ?T) us"
  have N: "?gN ij = Inr (?dN ij) \<and> columns (?dN ij) = ?S \<and> rectangular (?dN ij) \<and>
      length (rows (?dN ij)) = group_size ?T (us ! fst ij) * group_size ?T (us ! snd ij)" for ij
    using negative_body_diff [OF names fn num, of us ij] by auto
  have P: "?gP u = Inr (?dP u) \<and> columns (?dP u) = ?S \<and> rectangular (?dP u) \<and>
      length (rows (?dP u)) = group_size ?T u * (group_size ?T u - 1) div 2"
    if "u \<in> set us" for u
    using positive_body_diff [OF names fn(1) num, of u] sizes that by auto
  have wl: "?wl \<noteq> []"
  proof -
    from two have "(0, 1) \<in> set ?wl" by (simp add: set_negative_worklist)
    then show ?thesis by auto
  qed
  from two have ne: "us \<noteq> []" by auto
  have ok: "\<not> (True \<and> ''sequence'' \<in> set fn)" using seq by simp
  have lab: "''label'' \<notin> set ?S" using label by (simp add: pair_schema_def)
  from assembled_counts [of ?wl ?gN ?dN ?S us ?gP ?dP, OF _ _ wl ne lab] N P
  obtain out where out: "fst (extract_pairs r fn True h) = Inr out"
    and c0: "count_label (Num (Fin 0)) out = sum_list (map (\<lambda>x. length (rows (?dN x))) ?wl)"
    and c1: "count_label (Num (Fin 1)) out = sum_list (map (\<lambda>u. length (rows (?dP u))) us)"
    and c2: "length (rows out) = sum_list (map (\<lambda>x. length (rows (?dN x))) ?wl) +
       sum_list (map (\<lambda>u. length (rows (?dP u))) us)"
    unfolding extract_pairs_value(1) [OF r names us ok] by blast
  have "sum_list (map (\<lambda>x. length (rows (?dN x))) ?wl) =
      sum_list (map (\<lambda>ij. ?ns ! fst ij * ?ns ! snd ij) ?wl)"
    using N by (intro arg_cong [where f = sum_list] map_cong refl)
      (auto simp: set_negative_worklist)
  also have "\<dots> = expected_negative_rows ?ns"
    by (rule sum_list_worklist) simp
  finally have s0: "sum_list (map (\<lambda>x. length (rows (?dN x))) ?wl) = expected_negative_rows ?ns" .
  have "sum_list (map (\<lambda>u. length (rows (?dP u))) us) =
      sum_list (map (\<lambda>u. group_size ?T u * (group_size ?T u - 1) div 2) us)"
    using P by (intro arg_cong [where f = sum_list] map_cong refl) simp
  also have "\<dots> = expected_positive_rows ?ns"
    by (simp add: expected_positive_rows_def comp_def)
  finally have s1: "sum_list (map (\<lambda>u. length (rows (?dP u))) us) =
      expected_positive_rows ?ns" .
  from out c0 c1 c2 s0 s1 show ?thesis by auto
qed

section \<open>The schema of the tables of one pass\<close>






section \<open>Fewer than two subjects\<close>

lemma negative_worklist_few: "n < 2 \<Longrightarrow> negative_worklist n = []"
  by (cases n) (simp_all add: negative_worklist_def)

lemma extract_pairs_few_subjects:
  assumes "getitem ''user_name'' (h ! r) = Inr names"
    and "pd_unique names = Inr user_names"
    and "length user_names < 2"
  shows "\<exists>e. extract_pairs r fn flag h = (Inl e, h)"
  using assms by (simp add: extract_pairs_def negative_worklist_few pd_concat_def)

text \<open>
  Claim C5 (the code differs). A table with fewer than 2 distinct subjects should give
  a dataset without rows labeled 0. On the single subject with 3 rows, in concat mode,
  the generator raises instead: the list of negative tables is empty and
  \<^verbatim>\<open>pd.concat\<close> of an empty list is a \<^verbatim>\<open>ValueError\<close>.
\<close>

theorem extract_pairs_single_subject_raises:
  "fst (extract_pairs 0 [''f''] False [table_3]) = Inl (ValueError NoObjectsToConcatenate)"
  by code_simp

section \<open>Groups of one row in diff mode\<close>

text \<open>
  Claim C1 (the code differs). A within-subject work item over a group of \<open>n\<close> rows
  should give \<open>n\<cdot>(n-1)/2\<close> rows, which is an empty table for \<open>n = 1\<close>. In diff mode
  the engine raises on a group of one row: the list of slices is empty and
  \<^verbatim>\<open>np.concatenate\<close> of an empty list is a \<^verbatim>\<open>ValueError\<close>.
\<close>

theorem get_pair_data_diff_single_row_raises:
  "fst (get_pair_data True 0 None [group_1]) = Inl (ValueError NeedAtLeastOneArray)"
  by code_simp

text \<open>
  Claim C2 (the code differs). For subjects with 2, 1 and 2 rows in diff mode the
  dataset should have 10 rows, 8 labeled 0 and 2 labeled 1. The generator raises when
  it reaches the subject with one row.
\<close>

theorem extract_pairs_212_diff_raises:
  "fst (extract_pairs 0 [''f''] True [table_212]) = Inl (ValueError NeedAtLeastOneArray)"
  by code_simp

text \<open>
  Claim C3 (the code differs). Diff mode and concat mode should give rows in 1:1
  correspondence for every work item. For the within-subject item over a group of one
  row, concat mode gives the empty table and diff mode gives no table.
\<close>

theorem modes_differ_on_single_row:
  "abs_diff_between_all_row_pairs group_1 group_1 True = Inl (ValueError NeedAtLeastOneArray) \<and>
   fst (cartesian_product 0 0 True default_suffixes [group_1]) =
     Inr \<lparr>columns = [''f_A'', ''g_A'', ''f_B'', ''g_B''], rows = []\<rparr>"
  by code_simp

end
